theory Spec2Isabelle
  imports Main "HOL-Library.AList"
begin

section \<open>Python string primitives used by the pipeline\<close>

text \<open>
  A Python \<open>str\<close> is a sequence of code points. The model uses \<open>string\<close>, whose
  characters are read as the code points U+0000 to U+00FF.
\<close>

definition isspace :: "char \<Rightarrow> bool" where
  \<comment> \<open>\<open>str.isspace\<close> on one code point below 256: TAB, LF, VT, FF, CR, FS, GS, RS, US,
      SPACE, NEL and NBSP.\<close>
  "isspace c =
     (let n = (of_char c :: nat)
      in (9 \<le> n \<and> n \<le> 13) \<or> (28 \<le> n \<and> n \<le> 32) \<or> n = 133 \<or> n = 160)"

definition lower_char :: "char \<Rightarrow> char" where
  \<comment> \<open>\<open>str.lower\<close> on one code point below 256: A to Z and the Latin-1 capitals
      (U+00C0 to U+00DE without the multiplication sign U+00D7) move up by 32.\<close>
  "lower_char c =
     (let n = (of_char c :: nat)
      in if (65 \<le> n \<and> n \<le> 90) \<or> (192 \<le> n \<and> n \<le> 222 \<and> n \<noteq> 215)
         then char_of (n + 32) else c)"

definition lower :: "string \<Rightarrow> string" where
  "lower s = map lower_char s"

definition lstrip :: "string \<Rightarrow> string" where
  "lstrip s = dropWhile isspace s"

definition rstrip :: "string \<Rightarrow> string" where
  "rstrip s = rev (dropWhile isspace (rev s))"

definition strip :: "string \<Rightarrow> string" where
  "strip s = rstrip (lstrip s)"

fun split_ws :: "string \<Rightarrow> string \<Rightarrow> string list" where
  \<comment> \<open>the scan of \<open>str.split()\<close>: \<open>cur\<close> is the token being read\<close>
  "split_ws cur [] = (if cur = [] then [] else [cur])"
| "split_ws cur (c # cs) =
     (if isspace c then (if cur = [] then split_ws [] cs else cur # split_ws [] cs)
      else split_ws (cur @ [c]) cs)"

definition str_split :: "string \<Rightarrow> string list" where
  \<comment> \<open>\<open>s.split()\<close>: the maximal runs of non-whitespace characters\<close>
  "str_split s = split_ws [] s"

fun split_sep :: "char \<Rightarrow> string \<Rightarrow> string \<Rightarrow> string list" where
  \<comment> \<open>the scan of \<open>s.split(sep)\<close> for a one-character separator\<close>
  "split_sep sep cur [] = [cur]"
| "split_sep sep cur (c # cs) =
     (if c = sep then cur # split_sep sep [] cs else split_sep sep (cur @ [c]) cs)"

definition str_split_on :: "char \<Rightarrow> string \<Rightarrow> string list" where
  "str_split_on sep s = split_sep sep [] s"

fun join :: "string \<Rightarrow> string list \<Rightarrow> string" where
  \<comment> \<open>\<open>sep.join(xs)\<close>\<close>
  "join sep [] = []"
| "join sep [x] = x"
| "join sep (x # y # ys) = x @ sep @ join sep (y # ys)"

section \<open>The process environment\<close>

text \<open>
  What the program does to its surroundings is recorded as a trace of events: a line
  printed, a prompt shown by \<open>input\<close>, a file opened for reading, a file written.
  \<open>stdin\<close> holds the lines the user will still type; \<open>input\<close> at the end of the
  stream raises \<open>EOFError\<close>. \<open>files\<close> gives, for a path, the list of strings that
  \<open>json.loads\<close> returns on the file's contents (\<open>None\<close> when the file cannot be
  opened or parsed); \<open>writable\<close> says whether a path can be opened for writing.
\<close>

datatype error =
  EOFError | KeyError string | FileNotFoundError string | PermissionError string
  | ExtractionError string

datatype 'd event = Printed string | Prompted string | Opened string | Wrote string 'd

record 'd world =
  stdin :: "string list"
  events :: "'d event list"
  files :: "string \<rightharpoonup> string list"
  writable :: "string \<Rightarrow> bool"

definition print :: "string \<Rightarrow> 'd world \<Rightarrow> 'd world" where
  "print s w = w\<lparr>events := events w @ [Printed s]\<rparr>"

definition input :: "string \<Rightarrow> 'd world \<Rightarrow> (error + string) \<times> 'd world" where
  "input prompt w =
     (let w1 = w\<lparr>events := events w @ [Prompted prompt]\<rparr>
      in case stdin w1 of
           [] \<Rightarrow> (Inl EOFError, w1)
         | l # ls \<Rightarrow> (Inr l, w1\<lparr>stdin := ls\<rparr>))"

section \<open>pipeline\_config\_system.py\<close>

datatype PipelineType = DEFAULT_DYNAMIC | CUSTOM_DYNAMIC | DEMO

function ask_for_pipeline :: "'d world \<Rightarrow> (error + PipelineType) \<times> 'd world" where
  "ask_for_pipeline w =
     (let w1 = print (replicate 100 (CHR 0x0A)) w;
          w2 = print ''--- Which ETL pipeline would you like to use? (1/2/3) ---'' w1;
          w3 = print (''1.'' @ [CHR 0x09] @ '' Dynamic ETL with default settings'' @ [CHR 0x0A]
                      @ ''2.'' @ [CHR 0x09] @ '' Dynamic ETL with custom settings'' @ [CHR 0x0A]
                      @ ''3.'' @ [CHR 0x09] @ '' Demo ETL'') w2
      in case input ''Pipeline: '' w3 of
           (Inl e, w4) \<Rightarrow> (Inl e, w4)
         | (Inr answer, w4) \<Rightarrow>
             if answer = ''1'' then
               (Inr DEFAULT_DYNAMIC, print ''Using default parameters for ETL...'' w4)
             else if answer = ''2'' then (Inr CUSTOM_DYNAMIC, w4)
             else if answer = ''3'' then (Inr DEMO, w4)
             else ask_for_pipeline (print ''Invalid answer.'' w4))"
  by pat_completeness auto
termination
  by (relation "measure (\<lambda>w. length (stdin w))")
     (auto simp: input_def print_def Let_def split: list.splits)

definition invalid_flag_answer :: string where
  "invalid_flag_answer =
     ''Invalid answer. Please answer with '' @ [CHR 0x27] @ ''y'' @ [CHR 0x27]
     @ '' or '' @ [CHR 0x27] @ ''n'' @ [CHR 0x27] @ ''.''"

function configure_flag :: "string \<Rightarrow> 'd world \<Rightarrow> (error + bool) \<times> 'd world" where
  "configure_flag question w =
     (case input (question @ '' (y/n) '') w of
        (Inl e, w1) \<Rightarrow> (Inl e, w1)
      | (Inr user_answer, w1) \<Rightarrow>
          if lower user_answer = ''y'' then (Inr True, w1)
          else if lower user_answer = ''n'' then (Inr False, w1)
          else configure_flag question (print invalid_flag_answer w1))"
  by pat_completeness auto
termination
  by (relation "measure (\<lambda>(q, w). length (stdin w))")
     (auto simp: input_def print_def Let_def split: list.splits)

definition specific_question :: "string \<Rightarrow> string" where
  \<comment> \<open>lines 58 and 63 to 65 of \<open>configure_from_flags\<close>\<close>
  "specific_question key =
     (let default_question = ''Do you want to '';
          split_key = str_split_on (CHR ''_'') key;
          cleaned_key = rstrip (join '' '' split_key)
      in default_question @ cleaned_key @ ''?'')"

text \<open>
  A flag dictionary is an association list in insertion order. \<open>flag_dict[k]\<close> raises
  \<open>KeyError\<close> on a missing key; \<open>flag_dict[k] = v\<close> on a key already there keeps its
  place. The \<open>for\<close> loop walks the keys the dictionary had at the start.
\<close>

type_synonym flag_dict = "(string \<times> bool) list"

fun configure_keys ::
  "string list \<Rightarrow> flag_dict \<Rightarrow> 'd world \<Rightarrow> (error + flag_dict) \<times> 'd world" where
  "configure_keys [] flag_dict w = (Inr flag_dict, w)"
| "configure_keys (key # keys) flag_dict w =
     (if key = ''apply_lemmatization'' then
        (case map_of flag_dict ''apply_stemming'' of
           None \<Rightarrow> (Inl (KeyError ''apply_stemming''), w)
         | Some True \<Rightarrow> configure_keys keys (AList.update key False flag_dict) w
         | Some False \<Rightarrow>
             (case configure_flag (specific_question key) w of
                (Inl e, w1) \<Rightarrow> (Inl e, w1)
              | (Inr b, w1) \<Rightarrow> configure_keys keys (AList.update key b flag_dict) w1))
      else
        (case configure_flag (specific_question key) w of
           (Inl e, w1) \<Rightarrow> (Inl e, w1)
         | (Inr b, w1) \<Rightarrow> configure_keys keys (AList.update key b flag_dict) w1))"

definition configure_from_flags ::
  "flag_dict \<Rightarrow> 'd world \<Rightarrow> (error + flag_dict) \<times> 'd world" where
  "configure_from_flags flag_dict w = configure_keys (map fst flag_dict) flag_dict w"

section \<open>etl\_classes/dynamic\_etl.py\<close>

text \<open>
  The paragraph objects of the document parser expose \<open>paragraph.text\<close> and
  \<open>paragraph.style.name\<close>; an output entry is the dictionary with the keys
  \<open>"text"\<close> and \<open>"style"\<close>.
\<close>

record Paragraph =
  para_text :: string
  style_name :: string

record corpus_entry =
  entry_text :: string
  entry_style :: string

record TextFlags =
  remove_stop_words :: bool
  apply_lemmatization :: bool
  apply_stemming :: bool
  remove_punctuation :: bool

record ParagraphFlags =
  remove_title_page :: bool
  remove_bibliography :: bool
  remove_headings :: bool
  remove_tables_and_figures :: bool

text \<open>
  The modules \<open>modifiers.text_modifier\<close> and \<open>modifiers.paragraph_modifier\<close> are
  external to the pipeline: their functions are parameters of the model, total and pure.
\<close>

record TextModifier =
  tm_remove_stop_words :: "string \<Rightarrow> string list \<Rightarrow> string"
  tm_apply_lemmatization :: "string \<Rightarrow> string"
  tm_apply_stemming :: "string \<Rightarrow> string"
  tm_remove_punctuation :: "string \<Rightarrow> string"

record ParagraphModifier =
  pm_remove_title :: "Paragraph list \<Rightarrow> Paragraph list \<times> Paragraph list"
  pm_remove_bibliography :: "Paragraph list \<Rightarrow> Paragraph list \<times> Paragraph list"
  pm_remove_headings :: "Paragraph list \<Rightarrow> Paragraph list \<times> Paragraph list"
  pm_remove_tables_figures :: "Paragraph list \<Rightarrow> Paragraph list \<times> Paragraph list"

definition remove_paragraphs_from_doc ::
  "ParagraphModifier \<Rightarrow> Paragraph list \<Rightarrow> ParagraphFlags \<Rightarrow> 'd world
   \<Rightarrow> (Paragraph list \<times> Paragraph list) \<times> 'd world" where
  "remove_paragraphs_from_doc pm doc_paragraphs paragraph_flags w =
     (let removed_paragraphs = [];
          (doc_paragraphs, removed_paragraphs, w) =
            (if remove_title_page paragraph_flags then
               (let w = print ''removing titlepage'' w;
                    (corpora_with_headings_removed, removed_headings) =
                      pm_remove_title pm doc_paragraphs
                in (corpora_with_headings_removed, removed_paragraphs @ removed_headings, w))
             else (doc_paragraphs, removed_paragraphs, w));
          (doc_paragraphs, removed_paragraphs, w) =
            (if remove_bibliography paragraph_flags then
               (let w = print ''removing bib'' w;
                    (corpora_with_headings_removed, removed_headings) =
                      pm_remove_bibliography pm doc_paragraphs
                in (corpora_with_headings_removed, removed_paragraphs @ removed_headings, w))
             else (doc_paragraphs, removed_paragraphs, w));
          (doc_paragraphs, removed_paragraphs) =
            (if remove_headings paragraph_flags then
               (let (corpora_with_headings_removed, removed_headings) =
                      pm_remove_headings pm doc_paragraphs
                in (corpora_with_headings_removed, removed_paragraphs @ removed_headings))
             else (doc_paragraphs, removed_paragraphs));
          (doc_paragraphs, removed_paragraphs) =
            (if remove_tables_and_figures paragraph_flags then
               (let (corpora_with_headings_removed, removed_headings) =
                      pm_remove_tables_figures pm doc_paragraphs
                in (corpora_with_headings_removed, removed_paragraphs @ removed_headings))
             else (doc_paragraphs, removed_paragraphs))
      in ((doc_paragraphs, removed_paragraphs), w))"

definition open_json :: "string \<Rightarrow> 'd world \<Rightarrow> (error + string list) \<times> 'd world" where
  \<comment> \<open>\<open>with open(path, 'r') as file: loads(file.read())\<close>\<close>
  "open_json path w =
     (let w1 = w\<lparr>events := events w @ [Opened path]\<rparr>
      in case files w path of
           None \<Rightarrow> (Inl (FileNotFoundError path), w1)
         | Some content \<Rightarrow> (Inr content, w1))"

definition transform_paragraph ::
  "TextModifier \<Rightarrow> TextFlags \<Rightarrow> string list \<Rightarrow> Paragraph \<Rightarrow> 'd world
   \<Rightarrow> corpus_entry option \<times> 'd world" where
  \<comment> \<open>the body of the \<open>for\<close> loop, lines 125 to 151; \<open>None\<close> is \<open>continue\<close>\<close>
  "transform_paragraph tm text_flags stopwords paragraph w =
     (if para_text paragraph = [] \<or> para_text paragraph = '' ''
         \<or> para_text paragraph = [CHR 0x0A] then (None, w)
      else if length (str_split (para_text paragraph)) < 3 then (None, w)
      else
        (let current_text = strip (para_text paragraph);
             current_style = style_name paragraph;
             (current_text, w) =
               (if remove_stop_words text_flags then
                  (tm_remove_stop_words tm current_text stopwords, print ''removing stop words'' w)
                else (current_text, w));
             (current_text, w) =
               (if apply_lemmatization text_flags then
                  (tm_apply_lemmatization tm current_text, print ''applying lemmatization'' w)
                else (current_text, w));
             (current_text, w) =
               (if apply_stemming text_flags then
                  (tm_apply_stemming tm current_text, print ''applying stemming'' w)
                else (current_text, w));
             (current_text, w) =
               (if remove_punctuation text_flags then
                  (tm_remove_punctuation tm current_text, print ''removing punctuation'' w)
                else (current_text, w))
         in (Some \<lparr>entry_text = current_text, entry_style = current_style\<rparr>, w)))"

fun transform_paragraphs_loop ::
  "TextModifier \<Rightarrow> TextFlags \<Rightarrow> string list \<Rightarrow> Paragraph list \<Rightarrow> corpus_entry list
   \<Rightarrow> 'd world \<Rightarrow> corpus_entry list \<times> 'd world" where
  "transform_paragraphs_loop tm text_flags stopwords [] total_doc_corpora w =
     (total_doc_corpora, w)"
| "transform_paragraphs_loop tm text_flags stopwords (paragraph # rest) total_doc_corpora w =
     (case transform_paragraph tm text_flags stopwords paragraph w of
        (None, w1) \<Rightarrow>
          transform_paragraphs_loop tm text_flags stopwords rest total_doc_corpora w1
      | (Some current_paragraph_obj, w1) \<Rightarrow>
          transform_paragraphs_loop tm text_flags stopwords rest
            (total_doc_corpora @ [current_paragraph_obj]) w1)"

definition transform_paragraphs_from_doc ::
  "TextModifier \<Rightarrow> Paragraph list \<Rightarrow> TextFlags \<Rightarrow> 'd world
   \<Rightarrow> (error + corpus_entry list) \<times> 'd world" where
  \<comment> \<open>Without \<open>remove_stop_words\<close> the variable \<open>stopwords\<close> stays unbound and is never
      read; the loop is given the empty list in its place.\<close>
  "transform_paragraphs_from_doc tm doc_paragraphs text_flags w =
     (if remove_stop_words text_flags then
        (case open_json ''stopwords.json'' w of
           (Inl e, w1) \<Rightarrow> (Inl e, w1)
         | (Inr stopwords, w1) \<Rightarrow>
             (let (total_doc_corpora, w2) =
                    transform_paragraphs_loop tm text_flags stopwords doc_paragraphs [] w1
              in (Inr total_doc_corpora, w2)))
      else
        (let (total_doc_corpora, w2) =
               transform_paragraphs_loop tm text_flags [] doc_paragraphs [] w
         in (Inr total_doc_corpora, w2)))"

record FlagContainer =
  paragraph_flags :: ParagraphFlags
  text_flags :: TextFlags

record DocumentResult =
  filename :: string
  corpora :: "corpus_entry list"

record BatchResult =
  config :: FlagContainer
  documents :: "DocumentResult list"

type_synonym etl_world = "BatchResult world"

fun transform_loop ::
  "ParagraphModifier \<Rightarrow> TextModifier \<Rightarrow> ParagraphFlags \<Rightarrow> TextFlags
   \<Rightarrow> (Paragraph list \<times> string) list \<Rightarrow> DocumentResult list \<Rightarrow> 'd world
   \<Rightarrow> (error + DocumentResult list) \<times> 'd world" where
  "transform_loop pm tm pf tf [] docs w = (Inr docs, w)"
| "transform_loop pm tm pf tf ((current_doc, name) # data) docs w =
     (let ((kept_paragraphs, _), w1) = remove_paragraphs_from_doc pm current_doc pf w
      in case transform_paragraphs_from_doc tm kept_paragraphs tf w1 of
           (Inl e, w2) \<Rightarrow> (Inl e, w2)
         | (Inr current_doc_corpora, w2) \<Rightarrow>
             transform_loop pm tm pf tf data
               (docs @ [\<lparr>filename = name, corpora = current_doc_corpora\<rparr>]) w2)"

definition transform ::
  "ParagraphModifier \<Rightarrow> TextModifier \<Rightarrow> (Paragraph list \<times> string) list \<Rightarrow> FlagContainer
   \<Rightarrow> 'd world \<Rightarrow> (error + BatchResult) \<times> 'd world" where
  "transform pm tm data flags w =
     (case transform_loop pm tm (paragraph_flags flags) (text_flags flags) data [] w of
        (Inl e, w1) \<Rightarrow> (Inl e, w1)
      | (Inr docs, w1) \<Rightarrow> (Inr \<lparr>config = flags, documents = docs\<rparr>, w1))"

definition load :: "string \<Rightarrow> BatchResult \<Rightarrow> etl_world \<Rightarrow> (error + unit) \<times> etl_world" where
  \<comment> \<open>the serialised text is represented by the value it encodes\<close>
  "load dest_str data w =
     (if writable w dest_str then (Inr (), w\<lparr>events := events w @ [Wrote dest_str data]\<rparr>)
      else (Inl (PermissionError dest_str), w))"

text \<open>
  Modelled from the spec: \<open>BaseETL._extract\<close> (module \<open>base_etl_class\<close>) is not among
  the sources. The spec says that extraction yields one \<open>(Document, filename)\<close> pair per
  source, in order, and that a source the parser cannot read is fatal for the batch. A
  source is given by its file name and by what the parser makes of it.
\<close>

fun extract_data ::
  "(string \<times> (error + Paragraph list)) list \<Rightarrow> error + (Paragraph list \<times> string) list" where
  "extract_data [] = Inr []"
| "extract_data ((name, parsed) # rest) =
     (case parsed of
        Inl e \<Rightarrow> Inl e
      | Inr doc \<Rightarrow>
          (case extract_data rest of
             Inl e \<Rightarrow> Inl e
           | Inr docs \<Rightarrow> Inr ((doc, name) # docs)))"

definition execute_etl ::
  "ParagraphModifier \<Rightarrow> TextModifier \<Rightarrow> (string \<times> (error + Paragraph list)) list \<Rightarrow> string
   \<Rightarrow> FlagContainer \<Rightarrow> etl_world \<Rightarrow> (error + unit) \<times> etl_world" where
  "execute_etl pm tm data_dir dest_dir flags w =
     (case extract_data data_dir of
        Inl e \<Rightarrow> (Inl e, w)
      | Inr extracted_data \<Rightarrow>
          (case transform pm tm extracted_data flags w of
             (Inl e, w1) \<Rightarrow> (Inl e, w1)
           | (Inr transformed_data, w1) \<Rightarrow> load dest_dir transformed_data w1))"

section \<open>Reference definitions for the properties\<close>

text \<open>
  The definitions of this section are not part of the program: they name what the
  specification says, so that the program can be compared with it.
\<close>

definition pipeline_token :: "string \<Rightarrow> PipelineType option" where
  "pipeline_token t =
     (if t = ''1'' then Some DEFAULT_DYNAMIC
      else if t = ''2'' then Some CUSTOM_DYNAMIC
      else if t = ''3'' then Some DEMO
      else None)"

definition flag_token :: "string \<Rightarrow> bool option" where
  "flag_token t =
     (if t = ''y'' \<or> t = ''Y'' then Some True
      else if t = ''n'' \<or> t = ''N'' then Some False
      else None)"

fun first_accepted :: "(string \<Rightarrow> 'a option) \<Rightarrow> string list \<Rightarrow> ('a \<times> string list) option" where
  "first_accepted f [] = None"
| "first_accepted f (t # ts) = (case f t of Some v \<Rightarrow> Some (v, ts) | None \<Rightarrow> first_accepted f ts)"

definition rejected :: "(string \<Rightarrow> 'a option) \<Rightarrow> string list \<Rightarrow> string list" where
  "rejected f ts = takeWhile (\<lambda>t. f t = None) ts"

definition pipeline_menu :: "'d event list" where
  "pipeline_menu =
     [Printed (replicate 100 (CHR 0x0A)),
      Printed ''--- Which ETL pipeline would you like to use? (1/2/3) ---'',
      Printed (''1.'' @ [CHR 0x09] @ '' Dynamic ETL with default settings'' @ [CHR 0x0A]
               @ ''2.'' @ [CHR 0x09] @ '' Dynamic ETL with custom settings'' @ [CHR 0x0A]
               @ ''3.'' @ [CHR 0x09] @ '' Demo ETL''),
      Prompted ''Pipeline: '']"

definition reprompts :: "'d event list \<Rightarrow> string \<Rightarrow> string list \<Rightarrow> 'd event list" where
  "reprompts ask complaint bad = concat (map (\<lambda>t. ask @ [Printed complaint]) bad) @ ask"

definition flag_prompt :: "string \<Rightarrow> 'd event list" where
  "flag_prompt question = [Prompted (question @ '' (y/n) '')]"

definition underscores_to_spaces :: "string \<Rightarrow> string" where
  "underscores_to_spaces key = map (\<lambda>c. if c = CHR ''_'' then CHR '' '' else c) key"

definition spec_question :: "string \<Rightarrow> string" where
  "spec_question key = ''Do you want to '' @ underscores_to_spaces key @ ''?''"

definition degenerate :: "Paragraph \<Rightarrow> bool" where
  "degenerate p = (length (str_split (para_text p)) < 3)"

definition transformed_text :: "TextModifier \<Rightarrow> TextFlags \<Rightarrow> string list \<Rightarrow> string \<Rightarrow> string" where
  "transformed_text tm tf sw s =
     (let s1 = (if remove_stop_words tf then tm_remove_stop_words tm s sw else s);
          s2 = (if apply_lemmatization tf then tm_apply_lemmatization tm s1 else s1);
          s3 = (if apply_stemming tf then tm_apply_stemming tm s2 else s2)
      in if remove_punctuation tf then tm_remove_punctuation tm s3 else s3)"

definition notices :: "TextFlags \<Rightarrow> 'd event list" where
  "notices tf =
     (if remove_stop_words tf then [Printed ''removing stop words''] else [])
     @ (if apply_lemmatization tf then [Printed ''applying lemmatization''] else [])
     @ (if apply_stemming tf then [Printed ''applying stemming''] else [])
     @ (if remove_punctuation tf then [Printed ''removing punctuation''] else [])"

definition entry_of :: "TextModifier \<Rightarrow> TextFlags \<Rightarrow> string list \<Rightarrow> Paragraph \<Rightarrow> corpus_entry" where
  "entry_of tm tf sw p =
     \<lparr>entry_text = transformed_text tm tf sw (strip (para_text p)), entry_style = style_name p\<rparr>"

definition kept :: "Paragraph list \<Rightarrow> Paragraph list" where
  "kept ps = filter (\<lambda>p. \<not> degenerate p) ps"

definition loaded_stopwords :: "TextFlags \<Rightarrow> 'd world \<Rightarrow> string list" where
  "loaded_stopwords tf w =
     (if remove_stop_words tf
      then (case files w ''stopwords.json'' of Some sw \<Rightarrow> sw | None \<Rightarrow> [])
      else [])"

definition rule_kept ::
  "bool \<Rightarrow> (Paragraph list \<Rightarrow> Paragraph list \<times> Paragraph list) \<Rightarrow> Paragraph list \<Rightarrow> Paragraph list" where
  "rule_kept enabled rule ps = (if enabled then fst (rule ps) else ps)"

definition rule_removed ::
  "bool \<Rightarrow> (Paragraph list \<Rightarrow> Paragraph list \<times> Paragraph list) \<Rightarrow> Paragraph list \<Rightarrow> Paragraph list" where
  "rule_removed enabled rule ps = (if enabled then snd (rule ps) else [])"

definition filter_notices :: "ParagraphFlags \<Rightarrow> 'd event list" where
  "filter_notices pf =
     (if remove_title_page pf then [Printed ''removing titlepage''] else [])
     @ (if remove_bibliography pf then [Printed ''removing bib''] else [])"

fun writes :: "'d event list \<Rightarrow> (string \<times> 'd) list" where
  "writes [] = []"
| "writes (Wrote path d # es) = (path, d) # writes es"
| "writes (e # es) = writes es"

text \<open>
  A machine on which nothing has happened yet, with the lines the user will type and the
  JSON files it holds; and the flag names that \<open>dynamic_etl.py\<close> reads.
\<close>

definition world0 :: "string list \<Rightarrow> (string \<rightharpoonup> string list) \<Rightarrow> etl_world" where
  "world0 typed fs = \<lparr>stdin = typed, events = [], files = fs, writable = (\<lambda>path. True)\<rparr>"

definition flag_identifiers :: "string list" where
  "flag_identifiers =
     [''remove_stop_words'', ''apply_lemmatization'', ''apply_stemming'', ''remove_punctuation'',
      ''remove_title_page'', ''remove_bibliography'', ''remove_headings'',
      ''remove_tables_and_figures'']"

text \<open>
  Stand-ins for the external modifiers: a text transform wraps its input in its own name, so
  that the output shows which transforms ran and in which order; the title rule takes the
  first paragraph, the heading rule every paragraph of style \<open>Heading 1\<close>.
\<close>

definition tag :: "string \<Rightarrow> string \<Rightarrow> string" where
  "tag name s = name @ ''('' @ s @ '')''"

definition tagging_modifier :: TextModifier where
  "tagging_modifier =
     \<lparr>tm_remove_stop_words = (\<lambda>s sw. tag ''stop'' s),
      tm_apply_lemmatization = tag ''lemma'',
      tm_apply_stemming = tag ''stem'',
      tm_remove_punctuation = tag ''punct''\<rparr>"

definition first_is_title :: ParagraphModifier where
  "first_is_title =
     \<lparr>pm_remove_title = (\<lambda>ps. (drop 1 ps, take 1 ps)),
      pm_remove_bibliography = (\<lambda>ps. (ps, [])),
      pm_remove_headings = (\<lambda>ps. (filter (\<lambda>p. style_name p \<noteq> ''Heading 1'') ps,
                                    filter (\<lambda>p. style_name p = ''Heading 1'') ps)),
      pm_remove_tables_figures = (\<lambda>ps. (ps, []))\<rparr>"

section \<open>Lemmas about the string primitives\<close>

lemma lower_char_eq:
  assumes "(of_char t :: nat) = k" "97 \<le> k" "k \<le> 122"
  shows "lower_char c = t \<longleftrightarrow> c = t \<or> (of_char c :: nat) = k - 32"
proof -
  let ?n = "of_char c :: nat"
  show ?thesis
  proof (cases "(65 \<le> ?n \<and> ?n \<le> 90) \<or> (192 \<le> ?n \<and> ?n \<le> 222 \<and> ?n \<noteq> 215)")
    case True
    then have lc: "lower_char c = char_of (?n + 32)" by (auto simp: lower_char_def Let_def)
    from True have lt: "?n + 32 < 256" by auto
    have "lower_char c = t \<longleftrightarrow> (of_char (lower_char c) :: nat) = of_char t"
      by simp
    also have "\<dots> \<longleftrightarrow> ?n + 32 = k" using lt assms by (simp add: lc)
    also have "\<dots> \<longleftrightarrow> ?n = k - 32" using assms by auto
    finally have "lower_char c = t \<longleftrightarrow> ?n = k - 32" .
    moreover have "c \<noteq> t" using True assms by auto
    ultimately show ?thesis by simp
  next
    case False
    then have lc: "lower_char c = c" by (auto simp: lower_char_def Let_def)
    have "?n \<noteq> k - 32" using False assms by auto
    then show ?thesis by (simp add: lc)
  qed
qed

lemma of_char_89: "(of_char c :: nat) = 89 \<longleftrightarrow> c = CHR ''Y''"
  using of_char_eq_iff [of c "CHR ''Y''", where ?'a = nat] by simp

lemma of_char_78: "(of_char c :: nat) = 78 \<longleftrightarrow> c = CHR ''N''"
  using of_char_eq_iff [of c "CHR ''N''", where ?'a = nat] by simp

lemma lower_char_y: "lower_char c = CHR ''y'' \<longleftrightarrow> c = CHR ''y'' \<or> c = CHR ''Y''"
  using lower_char_eq [of "CHR ''y''" 121 c] by (simp add: of_char_89)

lemma lower_char_n: "lower_char c = CHR ''n'' \<longleftrightarrow> c = CHR ''n'' \<or> c = CHR ''N''"
  using lower_char_eq [of "CHR ''n''" 110 c] by (simp add: of_char_78)

lemma lower_y: "lower s = ''y'' \<longleftrightarrow> s = ''y'' \<or> s = ''Y''"
  by (cases s) (auto simp: lower_def lower_char_y)

lemma lower_n: "lower s = ''n'' \<longleftrightarrow> s = ''n'' \<or> s = ''N''"
  by (cases s) (auto simp: lower_def lower_char_n)

lemma join_Cons_nonempty: "ys \<noteq> [] \<Longrightarrow> join sep (x # ys) = x @ sep @ join sep ys"
  by (cases ys) simp_all

lemma split_sep_nonempty: "split_sep sep cur s \<noteq> []"
  by (induction s arbitrary: cur) simp_all

lemma join_split_sep:
  "join [r] (split_sep sep cur s) = cur @ map (\<lambda>c. if c = sep then r else c) s"
  by (induction s arbitrary: cur) (simp_all add: join_Cons_nonempty split_sep_nonempty)

section \<open>Lemmas about the prompts\<close>

declare configure_flag.simps [simp del] ask_for_pipeline.simps [simp del]

lemma ask_for_pipeline_run:
  "stdin w = xs \<Longrightarrow>
   ask_for_pipeline w =
     (case first_accepted pipeline_token xs of
        None \<Rightarrow>
          (Inl EOFError,
           w\<lparr>stdin := [], events := events w @ reprompts pipeline_menu ''Invalid answer.'' xs\<rparr>)
      | Some (p, rest) \<Rightarrow>
          (Inr p,
           w\<lparr>stdin := rest,
              events := events w
                @ reprompts pipeline_menu ''Invalid answer.'' (rejected pipeline_token xs)
                @ (if p = DEFAULT_DYNAMIC then [Printed ''Using default parameters for ETL...'']
                   else [])\<rparr>))"
proof (induction xs arbitrary: w)
  case Nil
  then show ?case
    by (subst ask_for_pipeline.simps)
       (simp add: input_def print_def Let_def reprompts_def pipeline_menu_def)
next
  case (Cons t ts)
  show ?case
  proof (cases "pipeline_token t")
    case None
    let ?w = "w\<lparr>stdin := ts, events := events w @ pipeline_menu @ [Printed ''Invalid answer.'']\<rparr>"
    have step: "ask_for_pipeline w = ask_for_pipeline ?w"
      using None Cons.prems
      by (subst ask_for_pipeline.simps)
         (simp add: input_def print_def Let_def pipeline_menu_def pipeline_token_def split: if_splits)
    have "stdin ?w = ts" by simp
    note Cons.IH [OF this]
    with step None show ?thesis
      by (simp add: reprompts_def rejected_def split: option.splits)
  next
    case (Some p)
    then show ?thesis using Cons.prems
      by (subst ask_for_pipeline.simps)
         (auto simp add: input_def print_def Let_def pipeline_menu_def pipeline_token_def
            reprompts_def rejected_def split: if_splits)
  qed
qed

lemma configure_flag_run:
  "stdin w = xs \<Longrightarrow>
   configure_flag q w =
     (case first_accepted flag_token xs of
        None \<Rightarrow>
          (Inl EOFError,
           w\<lparr>stdin := [], events := events w @ reprompts (flag_prompt q) invalid_flag_answer xs\<rparr>)
      | Some (b, rest) \<Rightarrow>
          (Inr b,
           w\<lparr>stdin := rest,
              events := events w
                @ reprompts (flag_prompt q) invalid_flag_answer (rejected flag_token xs)\<rparr>))"
proof (induction xs arbitrary: w)
  case Nil
  then show ?case
    by (subst configure_flag.simps)
       (simp add: input_def print_def Let_def reprompts_def flag_prompt_def)
next
  case (Cons t ts)
  show ?case
  proof (cases "flag_token t")
    case None
    let ?w = "w\<lparr>stdin := ts, events := events w @ flag_prompt q @ [Printed invalid_flag_answer]\<rparr>"
    have step: "configure_flag q w = configure_flag q ?w"
      using None Cons.prems
      by (subst configure_flag.simps)
         (simp add: input_def print_def Let_def flag_prompt_def flag_token_def lower_y lower_n
            split: if_splits)
    have "stdin ?w = ts" by simp
    note Cons.IH [OF this]
    with step None show ?thesis
      by (simp add: reprompts_def rejected_def split: option.splits)
  next
    case (Some b)
    then show ?thesis using Cons.prems
      by (subst configure_flag.simps)
         (auto simp add: input_def print_def Let_def flag_prompt_def flag_token_def lower_y lower_n
            reprompts_def rejected_def split: if_splits)
  qed
qed

lemma first_accepted_filter:
  "first_accepted f (filter (\<lambda>t. f t \<noteq> None) xs) =
   map_option (\<lambda>(v, rest). (v, filter (\<lambda>t. f t \<noteq> None) rest)) (first_accepted f xs)"
  by (induction xs) (auto split: option.splits)

lemma configure_flag_filtered:
  assumes "stdin w' = filter (\<lambda>t. flag_token t \<noteq> None) (stdin w)"
  shows "fst (configure_flag q w') = fst (configure_flag q w) \<and>
         stdin (snd (configure_flag q w')) =
           filter (\<lambda>t. flag_token t \<noteq> None) (stdin (snd (configure_flag q w)))"
proof -
  have fa: "first_accepted flag_token (stdin w') =
      map_option (\<lambda>(v, rest). (v, filter (\<lambda>t. flag_token t \<noteq> None) rest))
        (first_accepted flag_token (stdin w))"
    unfolding assms by (rule first_accepted_filter)
  show ?thesis
  proof (cases "first_accepted flag_token (stdin w)")
    case None
    with fa show ?thesis
      by (simp add: configure_flag_run [OF refl, where w = w]
            configure_flag_run [OF refl, where w = w'])
  next
    case (Some p)
    with fa show ?thesis
      by (cases p)
         (simp add: configure_flag_run [OF refl, where w = w]
            configure_flag_run [OF refl, where w = w'])
  qed
qed

lemma configure_keys_filtered:
  "stdin w' = filter (\<lambda>t. flag_token t \<noteq> None) (stdin w) \<Longrightarrow>
   fst (configure_keys ks d w') = fst (configure_keys ks d w)"
proof (induction ks arbitrary: d w w')
  case Nil
  then show ?case by simp
next
  case (Cons key keys)
  note cf = configure_flag_filtered [OF Cons.prems, of "specific_question key"]
  have asked: "fst (case configure_flag (specific_question key) w' of
                 (Inl e, w1) \<Rightarrow> (Inl e, w1)
               | (Inr b, w1) \<Rightarrow> configure_keys keys (AList.update key b d) w1) =
        fst (case configure_flag (specific_question key) w of
                 (Inl e, w1) \<Rightarrow> (Inl e, w1)
               | (Inr b, w1) \<Rightarrow> configure_keys keys (AList.update key b d) w1)"
  proof (cases "configure_flag (specific_question key) w")
    case (Pair r w1)
    obtain r' w1' where p': "configure_flag (specific_question key) w' = (r', w1')"
      by (cases "configure_flag (specific_question key) w'")
    from cf Pair p' have rr: "r' = r"
      and st: "stdin w1' = filter (\<lambda>t. flag_token t \<noteq> None) (stdin w1)" by simp_all
    show ?thesis
    proof (cases r)
      case (Inl e)
      then show ?thesis using Pair p' rr by simp
    next
      case (Inr b)
      then show ?thesis using Pair p' rr Cons.IH [OF st, of "AList.update key b d"] by simp
    qed
  qed
  show ?case
  proof (cases "key = ''apply_lemmatization''")
    case False
    then show ?thesis using asked by simp
  next
    case True
    show ?thesis
    proof (cases "map_of d ''apply_stemming''")
      case None
      then show ?thesis using True by simp
    next
      case (Some s)
      then show ?thesis using asked Cons.IH [OF Cons.prems, of "AList.update key False d"]
        unfolding True by (cases s) simp_all
    qed
  qed
qed

lemma configure_keys_keep:
  "k \<notin> set ks \<Longrightarrow> configure_keys ks d w = (Inr d', w') \<Longrightarrow> map_of d' k = map_of d k"
proof (induction ks arbitrary: d w)
  case Nil
  then show ?case by simp
next
  case (Cons key keys)
  from Cons.prems have kk: "k \<noteq> key" "k \<notin> set keys" by auto
  have upd: "\<And>b. map_of (AList.update key b d) k = map_of d k"
    using kk by (simp add: update_conv')
  from Cons.prems(2) show ?case
    using Cons.IH [OF kk(2)] upd
    by (auto split: if_splits option.splits bool.splits prod.splits sum.splits)
qed

lemma lemmatization_forced:
  "distinct ks \<Longrightarrow> ''apply_stemming'' \<notin> set ks \<Longrightarrow> ''apply_lemmatization'' \<in> set ks \<Longrightarrow>
   map_of d ''apply_stemming'' = Some True \<Longrightarrow> configure_keys ks d w = (Inr d', w') \<Longrightarrow>
   map_of d' ''apply_lemmatization'' = Some False"
proof (induction ks arbitrary: d w)
  case Nil
  then show ?case by simp
next
  case (Cons key keys)
  show ?case
  proof (cases "key = ''apply_lemmatization''")
    case True
    with Cons.prems have rest: "configure_keys keys (AList.update key False d) w = (Inr d', w')"
      and notin: "''apply_lemmatization'' \<notin> set keys" by auto
    from configure_keys_keep [OF notin rest] True show ?thesis by (simp add: update_conv')
  next
    case False
    with Cons.prems obtain b w1 where
      rest: "configure_keys keys (AList.update key b d) w1 = (Inr d', w')"
      by (auto split: prod.splits sum.splits)
    from Cons.prems False have "map_of (AList.update key b d) ''apply_stemming'' = Some True"
      by (auto simp: update_conv')
    with Cons.IH [OF _ _ _ this rest] Cons.prems False show ?thesis by auto
  qed
qed

lemma stemming_first:
  "distinct (pre @ ''apply_stemming'' # post) \<Longrightarrow> ''apply_lemmatization'' \<in> set post \<Longrightarrow>
   configure_keys (pre @ ''apply_stemming'' # post) d w = (Inr d', w') \<Longrightarrow>
   map_of d' ''apply_stemming'' = Some True \<Longrightarrow>
   map_of d' ''apply_lemmatization'' = Some False"
proof (induction pre arbitrary: d w)
  case Nil
  then obtain b w1 where
    rest: "configure_keys post (AList.update ''apply_stemming'' b d) w1 = (Inr d', w')"
    by (auto split: prod.splits sum.splits)
  from Nil.prems have notin: "''apply_stemming'' \<notin> set post" and dp: "distinct post" by auto
  from configure_keys_keep [OF notin rest] Nil.prems(4) have b by (simp add: update_conv')
  then have "map_of (AList.update ''apply_stemming'' b d) ''apply_stemming'' = Some True"
    by (simp add: update_conv')
  from lemmatization_forced [OF dp notin Nil.prems(2) this rest] show ?case .
next
  case (Cons key pre)
  from Cons.prems(1,2) have ne: "key \<noteq> ''apply_lemmatization''" by auto
  with Cons.prems(3) obtain b w1 where
    rest: "configure_keys (pre @ ''apply_stemming'' # post) (AList.update key b d) w1 = (Inr d', w')"
    by (auto split: prod.splits sum.splits)
  from Cons.prems(1) have "distinct (pre @ ''apply_stemming'' # post)" by simp
  from Cons.IH [OF this Cons.prems(2) rest Cons.prems(4)] show ?case .
qed

lemma specific_question_eq:
  "specific_question key = ''Do you want to '' @ rstrip (underscores_to_spaces key) @ ''?''"
  using join_split_sep [of "CHR '' ''" "CHR ''_''" "[]" key]
  by (simp add: specific_question_def str_split_on_def underscores_to_spaces_def)

lemma rstrip_id: "s = [] \<or> \<not> isspace (last s) \<Longrightarrow> rstrip s = s"
  by (cases s rule: rev_cases) (auto simp: rstrip_def)

lemma isspace_space: "isspace (CHR '' '')"
  by (simp add: isspace_def)

lemma specific_question_plain:
  assumes "key = [] \<or> (last key \<noteq> CHR ''_'' \<and> \<not> isspace (last key))"
  shows "specific_question key = spec_question key"
proof -
  have "underscores_to_spaces key = [] \<or> \<not> isspace (last (underscores_to_spaces key))"
    using assms by (cases key rule: rev_cases) (auto simp: underscores_to_spaces_def)
  from rstrip_id [OF this] show ?thesis
    by (simp add: specific_question_eq spec_question_def)
qed

lemma set_reprompts: "set (reprompts ask c bad) \<subseteq> set ask \<union> {Printed c}"
  by (auto simp: reprompts_def)

lemma configure_flag_events:
  "set (events (snd (configure_flag q w))) \<subseteq>
   set (events w) \<union> {Printed invalid_flag_answer, Prompted (q @ '' (y/n) '')}"
  using set_reprompts [of "flag_prompt q" invalid_flag_answer]
  by (auto simp: configure_flag_run [OF refl, where w = w] flag_prompt_def split: option.splits)

lemma configure_keys_events:
  "set (events (snd (configure_keys ks d w))) \<subseteq>
   set (events w) \<union> {Printed invalid_flag_answer}
     \<union> (\<lambda>k. Prompted (specific_question k @ '' (y/n) '')) ` set ks"
proof (induction ks arbitrary: d w)
  case Nil
  then show ?case by auto
next
  case (Cons key keys)
  let ?P = "\<lambda>ks. (\<lambda>k. Prompted (specific_question k @ '' (y/n) '') :: 'a event) ` set ks"
  have asked: "set (events (snd (case configure_flag (specific_question key) w of
                 (Inl e, w1) \<Rightarrow> (Inl e, w1)
               | (Inr b, w1) \<Rightarrow> configure_keys keys (AList.update key b d) w1)))
        \<subseteq> set (events w) \<union> {Printed invalid_flag_answer} \<union> ?P (key # keys)"
  proof (cases "configure_flag (specific_question key) w")
    case (Pair r w1)
    from configure_flag_events [of "specific_question key" w] Pair
    have e1: "set (events w1) \<subseteq> set (events w) \<union> {Printed invalid_flag_answer} \<union> ?P (key # keys)"
      by auto
    show ?thesis
    proof (cases r)
      case (Inl e)
      then show ?thesis using Pair e1 by simp
    next
      case (Inr b)
      from Cons.IH [of "AList.update key b d" w1] e1
      show ?thesis using Pair Inr by auto
    qed
  qed
  show ?case
  proof (cases "key = ''apply_lemmatization''")
    case False
    then show ?thesis using asked by simp
  next
    case True
    show ?thesis
    proof (cases "map_of d ''apply_stemming''")
      case None
      then show ?thesis using True by auto
    next
      case (Some s)
      show ?thesis
        using Some asked Cons.IH [of "AList.update key False d" w]
        unfolding True by (cases s) auto
    qed
  qed
qed

section \<open>Lemmas about the text transform stage\<close>

lemma blank_degenerate:
  "para_text p = [] \<or> para_text p = '' '' \<or> para_text p = [CHR 0x0A] \<Longrightarrow> degenerate p"
  by (auto simp: degenerate_def str_split_def isspace_def)

lemma transform_paragraph_run:
  "transform_paragraph tm tf sw p w =
     (if degenerate p then (None, w)
      else (Some (entry_of tm tf sw p), w\<lparr>events := events w @ notices tf\<rparr>))"
proof (cases "degenerate p")
  case True
  then show ?thesis
    by (auto simp: transform_paragraph_def degenerate_def)
next
  case False
  with blank_degenerate [of p]
  have nb: "\<not> (para_text p = [] \<or> para_text p = '' '' \<or> para_text p = [CHR 0x0A])" by blast
  from False have n3: "\<not> length (str_split (para_text p)) < 3" by (simp add: degenerate_def)
  show ?thesis
    unfolding transform_paragraph_def
    by (simp only: nb n3 False if_False Let_def)
       (simp add: entry_of_def transformed_text_def notices_def print_def Let_def)
qed

lemma transform_paragraphs_loop_run:
  "transform_paragraphs_loop tm tf sw ps acc w =
     (acc @ map (entry_of tm tf sw) (kept ps),
      w\<lparr>events := events w @ concat (map (\<lambda>p. notices tf) (kept ps))\<rparr>)"
  by (induction ps arbitrary: acc w) (simp_all add: transform_paragraph_run kept_def)

lemma transform_paragraphs_from_doc_run:
  "transform_paragraphs_from_doc tm ps tf w =
     (if remove_stop_words tf then
        (case files w ''stopwords.json'' of
           None \<Rightarrow>
             (Inl (FileNotFoundError ''stopwords.json''),
              w\<lparr>events := events w @ [Opened ''stopwords.json'']\<rparr>)
         | Some sw \<Rightarrow>
             (Inr (map (entry_of tm tf sw) (kept ps)),
              w\<lparr>events := events w @ [Opened ''stopwords.json'']
                         @ concat (map (\<lambda>p. notices tf) (kept ps))\<rparr>))
      else
        (Inr (map (entry_of tm tf []) (kept ps)),
         w\<lparr>events := events w @ concat (map (\<lambda>p. notices tf) (kept ps))\<rparr>))"
  by (simp add: transform_paragraphs_from_doc_def open_json_def transform_paragraphs_loop_run
        Let_def split: option.splits)

lemma kept_eq: "kept ps = filter (\<lambda>p. 3 \<le> length (str_split (para_text p))) ps"
  by (simp add: kept_def degenerate_def not_less)

lemma entry_style_entry_of: "entry_style (entry_of tm tf sw p) = style_name p"
  by (simp add: entry_of_def)

lemma stage_result:
  "transform_paragraphs_from_doc tm ps tf w = (Inr out, w') \<Longrightarrow>
   out = map (entry_of tm tf (loaded_stopwords tf w)) (kept ps)"
  by (auto simp: transform_paragraphs_from_doc_run loaded_stopwords_def
        split: if_splits option.splits)

lemma writes_append: "writes (xs @ ys) = writes xs @ writes ys"
  by (induction xs rule: writes.induct) simp_all

lemma writes_notices: "writes (notices tf) = []"
  by (simp add: notices_def writes_append)

lemma writes_concat_notices: "writes (concat (map (\<lambda>p. notices tf) ps)) = []"
  by (induction ps) (simp_all add: writes_append writes_notices)

lemma writes_filter_notices: "writes (filter_notices pf) = []"
  by (simp add: filter_notices_def writes_append)

lemma remove_paragraphs_from_doc_run:
  "remove_paragraphs_from_doc pm ps pf w =
     (let k1 = rule_kept (remove_title_page pf) (pm_remove_title pm) ps;
          k2 = rule_kept (remove_bibliography pf) (pm_remove_bibliography pm) k1;
          k3 = rule_kept (remove_headings pf) (pm_remove_headings pm) k2;
          k4 = rule_kept (remove_tables_and_figures pf) (pm_remove_tables_figures pm) k3
      in ((k4,
           rule_removed (remove_title_page pf) (pm_remove_title pm) ps
           @ rule_removed (remove_bibliography pf) (pm_remove_bibliography pm) k1
           @ rule_removed (remove_headings pf) (pm_remove_headings pm) k2
           @ rule_removed (remove_tables_and_figures pf) (pm_remove_tables_figures pm) k3),
          w\<lparr>events := events w @ filter_notices pf\<rparr>))"
  by (simp add: remove_paragraphs_from_doc_def rule_kept_def rule_removed_def filter_notices_def
        print_def Let_def split: prod.splits)

lemma extract_data_fails:
  "(name, Inl e) \<in> set data \<Longrightarrow> \<exists>e'. extract_data data = Inl e'"
  by (induction data rule: extract_data.induct) (auto split: sum.splits)

lemma extract_data_names:
  "extract_data data = Inr ds \<Longrightarrow> map snd ds = map fst data \<and> (\<forall>(n, r) \<in> set data. \<not> isl r)"
  by (induction data arbitrary: ds rule: extract_data.induct) (auto split: sum.splits)

lemma transform_loop_trace:
  "transform_loop pm tm pf tf data docs w = (r, w') \<Longrightarrow>
   \<exists>evs. w' = w\<lparr>events := events w @ evs\<rparr> \<and> writes evs = [] \<and>
     (\<forall>ds. r = Inr ds \<longrightarrow> map filename ds = map filename docs @ map snd data)"
proof (induction data arbitrary: docs w)
  case Nil
  then show ?case by (intro exI [of _ "[]"]) auto
next
  case (Cons a data)
  obtain doc name where a: "a = (doc, name)" by (cases a)
  obtain k rm where rp:
    "remove_paragraphs_from_doc pm doc pf w = ((k, rm), w\<lparr>events := events w @ filter_notices pf\<rparr>)"
    by (simp add: remove_paragraphs_from_doc_run Let_def)
  let ?w1 = "w\<lparr>events := events w @ filter_notices pf\<rparr>"
  show ?case
  proof (cases "transform_paragraphs_from_doc tm k tf ?w1")
    case (Pair r2 w2)
    have w2: "\<exists>ev2. w2 = ?w1\<lparr>events := events ?w1 @ ev2\<rparr> \<and> writes ev2 = []"
      using Pair
      by (auto simp: transform_paragraphs_from_doc_run writes_append writes_concat_notices
            split: if_splits option.splits)
    then obtain ev2 where ev2: "w2 = ?w1\<lparr>events := events ?w1 @ ev2\<rparr>" "writes ev2 = []"
      by blast
    show ?thesis
    proof (cases r2)
      case (Inl e)
      with Cons.prems a rp Pair have "r = Inl e" "w' = w2" by simp_all
      with ev2 show ?thesis
        by (intro exI [of _ "filter_notices pf @ ev2"])
           (simp add: writes_append writes_filter_notices)
    next
      case (Inr c)
      with Cons.prems a rp Pair
      have "transform_loop pm tm pf tf data (docs @ [\<lparr>filename = name, corpora = c\<rparr>]) w2 = (r, w')"
        by simp
      from Cons.IH [OF this] obtain ev3 where
        3: "w' = w2\<lparr>events := events w2 @ ev3\<rparr>" "writes ev3 = []"
           "\<forall>ds. r = Inr ds \<longrightarrow>
              map filename ds = map filename (docs @ [\<lparr>filename = name, corpora = c\<rparr>]) @ map snd data"
        by blast
      with ev2 a show ?thesis
        by (intro exI [of _ "filter_notices pf @ ev2 @ ev3"])
           (simp add: writes_append writes_filter_notices)
    qed
  qed
qed

section \<open>Lemmas about the orchestrator\<close>

lemma execute_etl_run:
  "execute_etl pm tm data_dir dest flags w =
     (case extract_data data_dir of
        Inl e \<Rightarrow> (Inl e, w)
      | Inr ds \<Rightarrow>
          (case transform_loop pm tm (paragraph_flags flags) (text_flags flags) ds [] w of
             (Inl e, w1) \<Rightarrow> (Inl e, w1)
           | (Inr docs, w1) \<Rightarrow>
               if writable w1 dest
               then (Inr (), w1\<lparr>events := events w1
                                @ [Wrote dest \<lparr>config = flags, documents = docs\<rparr>]\<rparr>)
               else (Inl (PermissionError dest), w1)))"
  by (simp add: execute_etl_def transform_def load_def split: sum.splits prod.splits)

lemma execute_etl_failure:
  assumes "execute_etl pm tm data_dir dest flags w = (Inl e, w')"
  shows "writes (events w') = writes (events w)"
proof (cases "extract_data data_dir")
  case (Inl x)
  with assms have "w' = w" by (simp add: execute_etl_run)
  then show ?thesis by simp
next
  case (Inr ds)
  obtain r w1 where tl:
    "transform_loop pm tm (paragraph_flags flags) (text_flags flags) ds [] w = (r, w1)"
    by (cases "transform_loop pm tm (paragraph_flags flags) (text_flags flags) ds [] w")
  from transform_loop_trace [OF tl] obtain evs where
    evs: "w1 = w\<lparr>events := events w @ evs\<rparr>" and nw: "writes evs = []" by blast
  have "w' = w1"
  proof (cases r)
    case (Inl x)
    with assms Inr tl show ?thesis by (simp add: execute_etl_run)
  next
    case r: (Inr docs)
    with assms Inr tl show ?thesis by (simp add: execute_etl_run split: if_splits)
  qed
  with evs nw show ?thesis by (simp add: writes_append)
qed

lemma execute_etl_success:
  assumes "execute_etl pm tm data_dir dest flags w = (Inr u, w')"
  shows "\<exists>ds docs evs. extract_data data_dir = Inr ds \<and> writes evs = []
           \<and> map filename docs = map snd ds
           \<and> events w' = events w @ evs @ [Wrote dest \<lparr>config = flags, documents = docs\<rparr>]"
proof (cases "extract_data data_dir")
  case (Inl x)
  with assms show ?thesis by (simp add: execute_etl_run)
next
  case ex: (Inr ds)
  obtain r w1 where tl:
    "transform_loop pm tm (paragraph_flags flags) (text_flags flags) ds [] w = (r, w1)"
    by (cases "transform_loop pm tm (paragraph_flags flags) (text_flags flags) ds [] w")
  from transform_loop_trace [OF tl] obtain evs where
    tr: "w1 = w\<lparr>events := events w @ evs\<rparr> \<and> writes evs = [] \<and>
       (\<forall>docs. r = Inr docs \<longrightarrow> map filename docs = map snd ds)" by auto
  then have evs: "w1 = w\<lparr>events := events w @ evs\<rparr>" and nw: "writes evs = []"
    by simp_all
  show ?thesis
  proof (cases r)
    case (Inl x)
    with assms ex tl show ?thesis by (simp add: execute_etl_run)
  next
    case r: (Inr docs)
    with tr have names: "map filename docs = map snd ds" by simp
    from assms ex tl r
    have "w' = w1\<lparr>events := events w1 @ [Wrote dest \<lparr>config = flags, documents = docs\<rparr>]\<rparr>"
      by (simp add: execute_etl_run split: if_splits)
    then have "events w' = events w1 @ [Wrote dest \<lparr>config = flags, documents = docs\<rparr>]"
      by simp
    also have "events w1 = events w @ evs" by (simp add: evs)
    finally have ev: "events w' = events w @ evs @ [Wrote dest \<lparr>config = flags, documents = docs\<rparr>]"
      by simp
    have "extract_data data_dir = Inr ds \<and> writes evs = []
           \<and> map filename docs = map snd ds
           \<and> events w' = events w @ evs @ [Wrote dest \<lparr>config = flags, documents = docs\<rparr>]"
      using ex nw names ev by simp
    then show ?thesis by (intro exI)
  qed
qed

lemma count_opened_notices: "count_list (notices tf) (Opened path) = 0"
  by (simp add: notices_def)

lemma count_opened_concat_notices:
  "count_list (concat (map (\<lambda>p. notices tf) ps)) (Opened path) = 0"
  by (induction ps) (simp_all add: count_opened_notices)

lemma transform_first_document_without_stopwords:
  assumes "remove_stop_words (text_flags flags)" "files w ''stopwords.json'' = None"
  shows "transform pm tm ((doc, name) # rest) flags w =
           (Inl (FileNotFoundError ''stopwords.json''),
            w\<lparr>events := events w @ filter_notices (paragraph_flags flags)
                         @ [Opened ''stopwords.json'']\<rparr>)"
  using assms
  by (simp add: transform_def remove_paragraphs_from_doc_run transform_paragraphs_from_doc_run
        Let_def)

lemma schema_question:
  "k \<in> set flag_identifiers \<Longrightarrow> specific_question k = spec_question k"
  by (auto simp: flag_identifiers_def specific_question_plain isspace_def)

lemma rejected_all: "first_accepted f xs = None \<Longrightarrow> rejected f xs = xs"
  by (induction xs) (auto simp: rejected_def split: option.splits)

lemma configure_flag_trace:
  "events (snd (configure_flag q w)) =
     events w @ reprompts [Prompted (q @ '' (y/n) '')] invalid_flag_answer
                  (rejected flag_token (stdin w))"
  by (cases "first_accepted flag_token (stdin w)")
     (auto simp: configure_flag_run [OF refl, where w = w] flag_prompt_def rejected_all)

section \<open>The interactive configurator\<close>

text \<open>
  C8. The pipeline prompt returns on the first line that is exactly \<open>1\<close>, \<open>2\<close> or
  \<open>3\<close> (with \<open>DEFAULT_DYNAMIC\<close>, \<open>CUSTOM_DYNAMIC\<close>, \<open>DEMO\<close>), a flag question on
  the first line that is \<open>y\<close>, \<open>Y\<close> (true) or \<open>n\<close>, \<open>N\<close> (false). Every line before
  it is answered by the error message and the same prompt again; when no line is accepted
  the prompt ends with \<open>EOFError\<close> and returns nothing. Lines that are not accepted have
  no effect on the flags the walk produces.
\<close>

theorem prompts_accept_listed_tokens:
  "ask_for_pipeline w =
     (case first_accepted pipeline_token (stdin w) of
        None \<Rightarrow>
          (Inl EOFError,
           w\<lparr>stdin := [],
              events := events w @ reprompts pipeline_menu ''Invalid answer.'' (stdin w)\<rparr>)
      | Some (p, rest) \<Rightarrow>
          (Inr p,
           w\<lparr>stdin := rest,
              events := events w
                @ reprompts pipeline_menu ''Invalid answer.'' (rejected pipeline_token (stdin w))
                @ (if p = DEFAULT_DYNAMIC then [Printed ''Using default parameters for ETL...'']
                   else [])\<rparr>))
   \<and> configure_flag q w =
     (case first_accepted flag_token (stdin w) of
        None \<Rightarrow>
          (Inl EOFError,
           w\<lparr>stdin := [],
              events := events w @ reprompts (flag_prompt q) invalid_flag_answer (stdin w)\<rparr>)
      | Some (b, rest) \<Rightarrow>
          (Inr b,
           w\<lparr>stdin := rest,
              events := events w
                @ reprompts (flag_prompt q) invalid_flag_answer (rejected flag_token (stdin w))\<rparr>))
   \<and> fst (configure_keys ks d (w\<lparr>stdin := filter (\<lambda>t. flag_token t \<noteq> None) (stdin w)\<rparr>))
       = fst (configure_keys ks d w)"
proof (intro conjI)
  show "fst (configure_keys ks d (w\<lparr>stdin := filter (\<lambda>t. flag_token t \<noteq> None) (stdin w)\<rparr>))
       = fst (configure_keys ks d w)"
    by (rule configure_keys_filtered) simp
qed (rule ask_for_pipeline_run [OF refl] configure_flag_run [OF refl])+

theorem prompts_accept_listed_tokens_witness:
  "fst (ask_for_pipeline (world0 [''4'', '' 1'', ''2'', ''y''] Map.empty)) = Inr CUSTOM_DYNAMIC
   \<and> stdin (snd (ask_for_pipeline (world0 [''4'', '' 1'', ''2'', ''y''] Map.empty))) = [''y'']
   \<and> fst (configure_flag ''Q?'' (world0 [''yes'', ''N'', ''y''] Map.empty)) = Inr False
   \<and> events (snd (configure_flag ''Q?'' (world0 [''yes'', ''N'', ''y''] Map.empty))) =
        [Prompted ''Q? (y/n) '', Printed invalid_flag_answer, Prompted ''Q? (y/n) '']
   \<and> fst (configure_keys [''remove_headings''] [(''remove_headings'', True)]
            (world0 [''no'', ''0'', ''n''] Map.empty)) = Inr [(''remove_headings'', False)]"
proof -
  let ?W = "world0 [''no'', ''0'', ''n''] Map.empty :: etl_world"
  have f: "filter (\<lambda>t. flag_token t \<noteq> None) (stdin ?W) = [''n'']"
    by (auto simp: flag_token_def world0_def)
  have short: "fst (configure_keys [''remove_headings''] [(''remove_headings'', True)]
                 (?W\<lparr>stdin := [''n'']\<rparr>)) = Inr [(''remove_headings'', False)]"
    by (simp add: configure_flag_run [OF refl] flag_token_def world0_def)
  from prompts_accept_listed_tokens
         [of "world0 [''4'', '' 1'', ''2'', ''y''] Map.empty" "''Q?''" "[]" "[]"]
  have 1: "fst (ask_for_pipeline (world0 [''4'', '' 1'', ''2'', ''y''] Map.empty))
             = Inr CUSTOM_DYNAMIC"
    and 2: "stdin (snd (ask_for_pipeline (world0 [''4'', '' 1'', ''2'', ''y''] Map.empty)))
             = [''y'']"
    by (simp_all add: world0_def pipeline_token_def)
  from prompts_accept_listed_tokens [of "world0 [''yes'', ''N'', ''y''] Map.empty" "''Q?''" "[]" "[]"]
  have 3: "fst (configure_flag ''Q?'' (world0 [''yes'', ''N'', ''y''] Map.empty)) = Inr False"
    and 4: "events (snd (configure_flag ''Q?'' (world0 [''yes'', ''N'', ''y''] Map.empty))) =
        [Prompted ''Q? (y/n) '', Printed invalid_flag_answer, Prompted ''Q? (y/n) '']"
    by (simp_all add: world0_def flag_token_def rejected_def reprompts_def flag_prompt_def)
  from prompts_accept_listed_tokens
         [of ?W "''Q?''" "[''remove_headings'']" "[(''remove_headings'', True)]"]
  have "fst (configure_keys [''remove_headings''] [(''remove_headings'', True)]
               (?W\<lparr>stdin := filter (\<lambda>t. flag_token t \<noteq> None) (stdin ?W)\<rparr>))
        = fst (configure_keys [''remove_headings''] [(''remove_headings'', True)] ?W)"
    by (rule conjunct2 [THEN conjunct2])
  then have 5: "fst (configure_keys [''remove_headings''] [(''remove_headings'', True)] ?W)
        = Inr [(''remove_headings'', False)]"
    unfolding f using short by simp
  from 1 2 3 4 5 show ?thesis by (intro conjI)
qed

text \<open>
  C9. For each of the eight flags the question is \<open>Do you want to\<close>, the identifier with
  every underscore replaced by a space, and a question mark. When the walk asks about a
  flag, it is this question that it hands to the yes/no prompt, and the prompt shows the
  question it was given (with the answer hint) once, and once more after every line it
  refuses.
\<close>

theorem question_text_derivation:
  "list_all (\<lambda>k. specific_question k = ''Do you want to '' @ underscores_to_spaces k @ ''?'')
     flag_identifiers
   \<and> (key \<in> set flag_identifiers
        \<and> (key = ''apply_lemmatization'' \<longrightarrow> map_of d ''apply_stemming'' = Some False) \<longrightarrow>
        configure_keys (key # keys) d w =
          (case configure_flag (''Do you want to '' @ underscores_to_spaces key @ ''?'') w of
             (Inl e, w1) \<Rightarrow> (Inl e, w1)
           | (Inr b, w1) \<Rightarrow> configure_keys keys (AList.update key b d) w1))
   \<and> events (snd (configure_flag q w)) =
        events w @ reprompts [Prompted (q @ '' (y/n) '')] invalid_flag_answer
                     (rejected flag_token (stdin w))"
proof (intro conjI impI)
  show "list_all (\<lambda>k. specific_question k = ''Do you want to '' @ underscores_to_spaces k @ ''?'')
     flag_identifiers"
    unfolding list_all_iff using schema_question by (simp add: spec_question_def)
next
  assume a: "key \<in> set flag_identifiers
        \<and> (key = ''apply_lemmatization'' \<longrightarrow> map_of d ''apply_stemming'' = Some False)"
  then have q: "specific_question key = ''Do you want to '' @ underscores_to_spaces key @ ''?''"
    by (simp add: schema_question spec_question_def)
  from a have "key = ''apply_lemmatization'' \<longrightarrow> map_of d ''apply_stemming'' = Some False" ..
  then show "configure_keys (key # keys) d w =
          (case configure_flag (''Do you want to '' @ underscores_to_spaces key @ ''?'') w of
             (Inl e, w1) \<Rightarrow> (Inl e, w1)
           | (Inr b, w1) \<Rightarrow> configure_keys keys (AList.update key b d) w1)"
    unfolding q [symmetric] by simp
next
  show "events (snd (configure_flag q w)) =
        events w @ reprompts [Prompted (q @ '' (y/n) '')] invalid_flag_answer
                     (rejected flag_token (stdin w))"
    by (rule configure_flag_trace)
qed

theorem question_text_derivation_witness:
  "specific_question ''remove_tables_and_figures'' = ''Do you want to remove tables and figures?''
   \<and> configure_keys [''apply_stemming''] [(''apply_stemming'', False)]
        (world0 [''maybe'', ''Y''] Map.empty)
      = (Inr [(''apply_stemming'', True)],
         (world0 [] Map.empty)
           \<lparr>events := [Prompted ''Do you want to apply stemming? (y/n) '',
                       Printed invalid_flag_answer,
                       Prompted ''Do you want to apply stemming? (y/n) '']\<rparr>)"
proof -
  note t = question_text_derivation
    [of "''apply_stemming''" "[(''apply_stemming'', False)]" "[]"
        "world0 [''maybe'', ''Y''] Map.empty" "''Do you want to apply stemming?''"]
  from t have "list_all
      (\<lambda>k. specific_question k = ''Do you want to '' @ underscores_to_spaces k @ ''?'')
      flag_identifiers" ..
  then have 1: "specific_question ''remove_tables_and_figures''
      = ''Do you want to remove tables and figures?''"
    by (simp add: flag_identifiers_def underscores_to_spaces_def)
  have mem: "''apply_stemming'' \<in> set flag_identifiers
      \<and> (''apply_stemming'' = ''apply_lemmatization''
           \<longrightarrow> map_of [(''apply_stemming'', False)] ''apply_stemming'' = Some False)"
    by (simp add: flag_identifiers_def)
  have u: "''Do you want to '' @ underscores_to_spaces ''apply_stemming'' @ ''?''
      = ''Do you want to apply stemming?''"
    by (simp add: underscores_to_spaces_def)
  from t mem have "configure_keys [''apply_stemming''] [(''apply_stemming'', False)]
        (world0 [''maybe'', ''Y''] Map.empty)
      = (case configure_flag
                (''Do you want to '' @ underscores_to_spaces ''apply_stemming'' @ ''?'')
                (world0 [''maybe'', ''Y''] Map.empty) of
           (Inl e, w1) \<Rightarrow> (Inl e, w1)
         | (Inr b, w1) \<Rightarrow>
             configure_keys [] (AList.update ''apply_stemming'' b [(''apply_stemming'', False)]) w1)"
    by blast
  then have 2: "configure_keys [''apply_stemming''] [(''apply_stemming'', False)]
        (world0 [''maybe'', ''Y''] Map.empty)
      = (Inr [(''apply_stemming'', True)],
         (world0 [] Map.empty)
           \<lparr>events := [Prompted ''Do you want to apply stemming? (y/n) '',
                       Printed invalid_flag_answer,
                       Prompted ''Do you want to apply stemming? (y/n) '']\<rparr>)"
    unfolding u
    by (simp add: configure_flag_run [OF refl] world0_def flag_token_def rejected_def
          reprompts_def flag_prompt_def)
  from 1 2 show ?thesis by (intro conjI)
qed

text \<open>
  C1. The walk is to leave lemmatization off whenever stemming is on. The guard of
  \<open>configure_from_flags\<close> attempts it, but reads \<open>apply_stemming\<close> when it reaches
  \<open>apply_lemmatization\<close>: with the flags in the order of the data model, lemmatization is
  asked while stemming still holds its default, and two yes answers leave both flags true.
  With stemming listed first the same answers leave lemmatization off without asking.
\<close>

theorem lemmatization_asked_before_stemming_is_decided:
  "configure_from_flags
     [(''remove_stop_words'', False), (''apply_lemmatization'', False),
      (''apply_stemming'', False), (''remove_punctuation'', False)]
     (world0 [''n'', ''y'', ''y'', ''n''] Map.empty)
   = (Inr [(''remove_stop_words'', False), (''apply_lemmatization'', True),
           (''apply_stemming'', True), (''remove_punctuation'', False)],
      (world0 [] Map.empty)
        \<lparr>events := [Prompted ''Do you want to remove stop words? (y/n) '',
                    Prompted ''Do you want to apply lemmatization? (y/n) '',
                    Prompted ''Do you want to apply stemming? (y/n) '',
                    Prompted ''Do you want to remove punctuation? (y/n) '']\<rparr>)
   \<and> configure_from_flags
     [(''remove_stop_words'', False), (''apply_stemming'', False),
      (''apply_lemmatization'', False), (''remove_punctuation'', False)]
     (world0 [''n'', ''y'', ''n''] Map.empty)
   = (Inr [(''remove_stop_words'', False), (''apply_stemming'', True),
           (''apply_lemmatization'', False), (''remove_punctuation'', False)],
      (world0 [] Map.empty)
        \<lparr>events := [Prompted ''Do you want to remove stop words? (y/n) '',
                    Prompted ''Do you want to apply stemming? (y/n) '',
                    Prompted ''Do you want to remove punctuation? (y/n) '']\<rparr>)"
  by (simp add: configure_from_flags_def configure_flag_run [OF refl] world0_def flag_token_def
        rejected_def reprompts_def flag_prompt_def specific_question_eq underscores_to_spaces_def
        rstrip_def isspace_def)

section \<open>The paragraph filter stage\<close>

text \<open>
  C7. The filter stage applies the title page, bibliography, heading and table/figure rules
  in this order, each enabled rule to the paragraphs the previous one kept; what a rule
  removes is appended to the removed paragraphs; a disabled rule keeps everything and
  removes nothing; with all four switches off the stage returns the paragraphs as they are
  and prints nothing.
\<close>

theorem filter_stage_composes_rules:
  "remove_paragraphs_from_doc pm ps pf w =
     (let k1 = rule_kept (remove_title_page pf) (pm_remove_title pm) ps;
          k2 = rule_kept (remove_bibliography pf) (pm_remove_bibliography pm) k1;
          k3 = rule_kept (remove_headings pf) (pm_remove_headings pm) k2;
          k4 = rule_kept (remove_tables_and_figures pf) (pm_remove_tables_figures pm) k3
      in ((k4,
           rule_removed (remove_title_page pf) (pm_remove_title pm) ps
           @ rule_removed (remove_bibliography pf) (pm_remove_bibliography pm) k1
           @ rule_removed (remove_headings pf) (pm_remove_headings pm) k2
           @ rule_removed (remove_tables_and_figures pf) (pm_remove_tables_figures pm) k3),
          w\<lparr>events := events w @ filter_notices pf\<rparr>))
   \<and> rule_kept False rule ps = ps \<and> rule_removed False rule ps = []
   \<and> remove_paragraphs_from_doc pm ps
        \<lparr>remove_title_page = False, remove_bibliography = False, remove_headings = False,
         remove_tables_and_figures = False\<rparr> w = ((ps, []), w)"
  by (simp add: remove_paragraphs_from_doc_run rule_kept_def rule_removed_def
        filter_notices_def)

theorem filter_stage_composes_rules_witness:
  "remove_paragraphs_from_doc first_is_title
     [\<lparr>para_text = ''A study'', style_name = ''Heading 1''\<rparr>,
      \<lparr>para_text = ''Methods'', style_name = ''Heading 1''\<rparr>,
      \<lparr>para_text = ''We did this and that.'', style_name = ''Normal''\<rparr>]
     \<lparr>remove_title_page = True, remove_bibliography = False, remove_headings = True,
      remove_tables_and_figures = False\<rparr> (world0 [] Map.empty)
   = (([\<lparr>para_text = ''We did this and that.'', style_name = ''Normal''\<rparr>],
       [\<lparr>para_text = ''A study'', style_name = ''Heading 1''\<rparr>,
        \<lparr>para_text = ''Methods'', style_name = ''Heading 1''\<rparr>]),
      (world0 [] Map.empty)\<lparr>events := [Printed ''removing titlepage'']\<rparr>)"
  using filter_stage_composes_rules
    [of first_is_title
        "[\<lparr>para_text = ''A study'', style_name = ''Heading 1''\<rparr>,
          \<lparr>para_text = ''Methods'', style_name = ''Heading 1''\<rparr>,
          \<lparr>para_text = ''We did this and that.'', style_name = ''Normal''\<rparr>]"
        "\<lparr>remove_title_page = True, remove_bibliography = False, remove_headings = True,
          remove_tables_and_figures = False\<rparr>"
        "world0 [] Map.empty"]
  by (simp add: rule_kept_def rule_removed_def filter_notices_def first_is_title_def world0_def)

section \<open>The text transform stage\<close>

text \<open>
  C3. A paragraph with fewer than three whitespace-separated tokens is skipped before
  anything else happens to it (the machine is left as it was, so no transform ran); a
  paragraph with three or more tokens yields an entry. Whatever the flags, the stage
  returns the entries of exactly the paragraphs with three or more tokens, in order; it
  fails only when stop words are to be removed and their file cannot be loaded.
\<close>

theorem degeneracy_filter:
  "(length (str_split (para_text p)) < 3 \<longrightarrow> transform_paragraph tm tf sw p w = (None, w))
   \<and> (3 \<le> length (str_split (para_text p)) \<longrightarrow>
        fst (transform_paragraph tm tf sw p w) = Some (entry_of tm tf sw p))
   \<and> transform_paragraphs_from_doc tm ps tf w =
       (if remove_stop_words tf \<and> files w ''stopwords.json'' = None
        then (Inl (FileNotFoundError ''stopwords.json''),
              w\<lparr>events := events w @ [Opened ''stopwords.json'']\<rparr>)
        else (Inr (map (entry_of tm tf (loaded_stopwords tf w))
                     (filter (\<lambda>p. 3 \<le> length (str_split (para_text p))) ps)),
              w\<lparr>events := events w
                   @ (if remove_stop_words tf then [Opened ''stopwords.json''] else [])
                   @ concat (map (\<lambda>p. notices tf)
                               (filter (\<lambda>p. 3 \<le> length (str_split (para_text p))) ps))\<rparr>))"
proof (intro conjI impI)
  show "transform_paragraphs_from_doc tm ps tf w =
       (if remove_stop_words tf \<and> files w ''stopwords.json'' = None
        then (Inl (FileNotFoundError ''stopwords.json''),
              w\<lparr>events := events w @ [Opened ''stopwords.json'']\<rparr>)
        else (Inr (map (entry_of tm tf (loaded_stopwords tf w))
                     (filter (\<lambda>p. 3 \<le> length (str_split (para_text p))) ps)),
              w\<lparr>events := events w
                   @ (if remove_stop_words tf then [Opened ''stopwords.json''] else [])
                   @ concat (map (\<lambda>p. notices tf)
                               (filter (\<lambda>p. 3 \<le> length (str_split (para_text p))) ps))\<rparr>))"
    unfolding kept_eq [symmetric]
    by (auto simp: transform_paragraphs_from_doc_run loaded_stopwords_def split: option.splits)
qed (simp_all add: transform_paragraph_run degenerate_def)

theorem degeneracy_filter_witness:
  "transform_paragraphs_from_doc tagging_modifier
     [\<lparr>para_text = [], style_name = ''Normal''\<rparr>,
      \<lparr>para_text = ''hi there'', style_name = ''Normal''\<rparr>,
      \<lparr>para_text = ''This is a real sentence.'', style_name = ''Normal''\<rparr>,
      \<lparr>para_text = ''one two three'', style_name = ''Title''\<rparr>]
     \<lparr>remove_stop_words = True, apply_lemmatization = False, apply_stemming = True,
      remove_punctuation = False\<rparr> (world0 [] [''stopwords.json'' \<mapsto> [''de'', ''het'']])
   = (Inr [\<lparr>entry_text = ''stem(stop(This is a real sentence.))'', entry_style = ''Normal''\<rparr>,
           \<lparr>entry_text = ''stem(stop(one two three))'', entry_style = ''Title''\<rparr>],
      (world0 [] [''stopwords.json'' \<mapsto> [''de'', ''het'']])
        \<lparr>events := [Opened ''stopwords.json'',
                    Printed ''removing stop words'', Printed ''applying stemming'',
                    Printed ''removing stop words'', Printed ''applying stemming'']\<rparr>)
   \<and> transform_paragraph tagging_modifier
        \<lparr>remove_stop_words = True, apply_lemmatization = False, apply_stemming = True,
         remove_punctuation = False\<rparr> [''de'', ''het'']
        \<lparr>para_text = ''hi there'', style_name = ''Normal''\<rparr>
        (world0 [] [''stopwords.json'' \<mapsto> [''de'', ''het'']])
      = (None, world0 [] [''stopwords.json'' \<mapsto> [''de'', ''het'']])"
proof -
  let ?tf = "\<lparr>remove_stop_words = True, apply_lemmatization = False, apply_stemming = True,
      remove_punctuation = False\<rparr>"
  let ?ps = "[\<lparr>para_text = [], style_name = ''Normal''\<rparr>,
      \<lparr>para_text = ''hi there'', style_name = ''Normal''\<rparr>,
      \<lparr>para_text = ''This is a real sentence.'', style_name = ''Normal''\<rparr>,
      \<lparr>para_text = ''one two three'', style_name = ''Title''\<rparr>]"
  let ?w = "world0 [] [''stopwords.json'' \<mapsto> [''de'', ''het'']] :: etl_world"
  note t = degeneracy_filter
    [where p = "\<lparr>para_text = ''hi there'', style_name = ''Normal''\<rparr>"
       and tm = tagging_modifier and tf = ?tf and sw = "[''de'', ''het'']" and w = ?w
       and ps = ?ps]
  have flt: "filter (\<lambda>p. 3 \<le> length (str_split (para_text p))) ?ps
       = [\<lparr>para_text = ''This is a real sentence.'', style_name = ''Normal''\<rparr>,
          \<lparr>para_text = ''one two three'', style_name = ''Title''\<rparr>]"
    by (simp add: str_split_def isspace_def)
  from t have "transform_paragraphs_from_doc tagging_modifier ?ps ?tf ?w =
       (if remove_stop_words ?tf \<and> files ?w ''stopwords.json'' = None
        then (Inl (FileNotFoundError ''stopwords.json''),
              ?w\<lparr>events := events ?w @ [Opened ''stopwords.json'']\<rparr>)
        else (Inr (map (entry_of tagging_modifier ?tf (loaded_stopwords ?tf ?w))
                     (filter (\<lambda>p. 3 \<le> length (str_split (para_text p))) ?ps)),
              ?w\<lparr>events := events ?w
                   @ (if remove_stop_words ?tf then [Opened ''stopwords.json''] else [])
                   @ concat (map (\<lambda>p. notices ?tf)
                               (filter (\<lambda>p. 3 \<le> length (str_split (para_text p))) ?ps))\<rparr>))"
    by (rule conjunct2 [THEN conjunct2])
  then have 1: "transform_paragraphs_from_doc tagging_modifier ?ps ?tf ?w
   = (Inr [\<lparr>entry_text = ''stem(stop(This is a real sentence.))'', entry_style = ''Normal''\<rparr>,
           \<lparr>entry_text = ''stem(stop(one two three))'', entry_style = ''Title''\<rparr>],
      ?w\<lparr>events := [Opened ''stopwords.json'',
                    Printed ''removing stop words'', Printed ''applying stemming'',
                    Printed ''removing stop words'', Printed ''applying stemming'']\<rparr>)"
    unfolding flt
    by (simp add: world0_def entry_of_def transformed_text_def loaded_stopwords_def notices_def
          strip_def lstrip_def rstrip_def isspace_def tagging_modifier_def tag_def)
  have two: "length (str_split (para_text \<lparr>para_text = ''hi there'', style_name = ''Normal''\<rparr>)) < 3"
    by (simp add: str_split_def isspace_def)
  from t two
  have 2: "transform_paragraph tagging_modifier ?tf [''de'', ''het'']
          \<lparr>para_text = ''hi there'', style_name = ''Normal''\<rparr> ?w = (None, ?w)"
    by blast
  from 1 2 show ?thesis by (intro conjI)
qed

text \<open>
  C6. With all four text switches off, the stage returns, for every paragraph with at least
  three tokens and in input order, the trimmed text and the style, and does nothing else.
\<close>

theorem all_switches_off_trims_only:
  "transform_paragraphs_from_doc tm ps
     \<lparr>remove_stop_words = False, apply_lemmatization = False, apply_stemming = False,
      remove_punctuation = False\<rparr> w
   = (Inr (map (\<lambda>p. \<lparr>entry_text = strip (para_text p), entry_style = style_name p\<rparr>)
             (filter (\<lambda>p. 3 \<le> length (str_split (para_text p))) ps)),
      w)"
  by (simp add: transform_paragraphs_from_doc_run kept_eq notices_def entry_of_def
        transformed_text_def)

theorem all_switches_off_trims_only_witness:
  "transform_paragraphs_from_doc tagging_modifier
     [\<lparr>para_text = [], style_name = ''Normal''\<rparr>,
      \<lparr>para_text = ''hi there'', style_name = ''Normal''\<rparr>,
      \<lparr>para_text = ''  This is a real sentence. '', style_name = ''Body''\<rparr>]
     \<lparr>remove_stop_words = False, apply_lemmatization = False, apply_stemming = False,
      remove_punctuation = False\<rparr> (world0 [] Map.empty)
   = (Inr [\<lparr>entry_text = ''This is a real sentence.'', entry_style = ''Body''\<rparr>],
      world0 [] Map.empty)"
  using all_switches_off_trims_only
    [of tagging_modifier
        "[\<lparr>para_text = [], style_name = ''Normal''\<rparr>,
          \<lparr>para_text = ''hi there'', style_name = ''Normal''\<rparr>,
          \<lparr>para_text = ''  This is a real sentence. '', style_name = ''Body''\<rparr>]"
        "world0 [] Map.empty"]
  by (simp add: str_split_def isspace_def strip_def lstrip_def rstrip_def)

text \<open>
  C10. The style of an entry is the style name of its paragraph, for every flag value and
  every modifier; the styles of the output are the styles of the retained paragraphs.
\<close>

theorem style_is_preserved:
  "(fst (transform_paragraph tm tf sw p w) = Some e \<longrightarrow> entry_style e = style_name p)
   \<and> (transform_paragraphs_from_doc tm ps tf w = (Inr out, w') \<longrightarrow>
        map entry_style out
          = map style_name (filter (\<lambda>p. 3 \<le> length (str_split (para_text p))) ps))"
proof (intro conjI impI)
  assume "fst (transform_paragraph tm tf sw p w) = Some e"
  then show "entry_style e = style_name p"
    by (auto simp: transform_paragraph_run entry_style_entry_of split: if_splits)
next
  assume "transform_paragraphs_from_doc tm ps tf w = (Inr out, w')"
  from stage_result [OF this]
  show "map entry_style out
          = map style_name (filter (\<lambda>p. 3 \<le> length (str_split (para_text p))) ps)"
    by (simp add: kept_eq entry_style_entry_of comp_def)
qed

theorem style_is_preserved_witness:
  "transform_paragraphs_from_doc tagging_modifier
     [\<lparr>para_text = ''Chapter one begins here'', style_name = ''Heading 1''\<rparr>,
      \<lparr>para_text = ''short'', style_name = ''Normal''\<rparr>,
      \<lparr>para_text = ''a b c'', style_name = ''List Bullet''\<rparr>]
     \<lparr>remove_stop_words = True, apply_lemmatization = True, apply_stemming = True,
      remove_punctuation = True\<rparr> (world0 [] [''stopwords.json'' \<mapsto> [''de'', ''het'']])
   = (Inr [\<lparr>entry_text = ''punct(stem(lemma(stop(Chapter one begins here))))'',
            entry_style = ''Heading 1''\<rparr>,
           \<lparr>entry_text = ''punct(stem(lemma(stop(a b c))))'', entry_style = ''List Bullet''\<rparr>],
      (world0 [] [''stopwords.json'' \<mapsto> [''de'', ''het'']])
        \<lparr>events := [Opened ''stopwords.json''] @ notices
              \<lparr>remove_stop_words = True, apply_lemmatization = True, apply_stemming = True,
               remove_punctuation = True\<rparr> @ notices
              \<lparr>remove_stop_words = True, apply_lemmatization = True, apply_stemming = True,
               remove_punctuation = True\<rparr>\<rparr>)
   \<and> map entry_style
        [\<lparr>entry_text = ''punct(stem(lemma(stop(Chapter one begins here))))'',
            entry_style = ''Heading 1''\<rparr>,
         \<lparr>entry_text = ''punct(stem(lemma(stop(a b c))))'', entry_style = ''List Bullet''\<rparr>]
      = [''Heading 1'', ''List Bullet'']"
proof -
  let ?tf = "\<lparr>remove_stop_words = True, apply_lemmatization = True, apply_stemming = True,
      remove_punctuation = True\<rparr>"
  let ?ps = "[\<lparr>para_text = ''Chapter one begins here'', style_name = ''Heading 1''\<rparr>,
      \<lparr>para_text = ''short'', style_name = ''Normal''\<rparr>,
      \<lparr>para_text = ''a b c'', style_name = ''List Bullet''\<rparr>]"
  let ?w = "world0 [] [''stopwords.json'' \<mapsto> [''de'', ''het'']] :: etl_world"
  let ?out = "[\<lparr>entry_text = ''punct(stem(lemma(stop(Chapter one begins here))))'',
            entry_style = ''Heading 1''\<rparr>,
           \<lparr>entry_text = ''punct(stem(lemma(stop(a b c))))'', entry_style = ''List Bullet''\<rparr>]"
  have run: "transform_paragraphs_from_doc tagging_modifier ?ps ?tf ?w
     = (Inr ?out, ?w\<lparr>events := [Opened ''stopwords.json''] @ notices ?tf @ notices ?tf\<rparr>)"
    by (simp add: transform_paragraphs_from_doc_def open_json_def transform_paragraph_def
          str_split_def isspace_def strip_def lstrip_def rstrip_def tagging_modifier_def tag_def
          print_def world0_def notices_def)
  have flt: "filter (\<lambda>p. 3 \<le> length (str_split (para_text p))) ?ps
       = [\<lparr>para_text = ''Chapter one begins here'', style_name = ''Heading 1''\<rparr>,
          \<lparr>para_text = ''a b c'', style_name = ''List Bullet''\<rparr>]"
    by (simp add: str_split_def isspace_def)
  from style_is_preserved
    [where tm = tagging_modifier and ps = ?ps and tf = ?tf and w = ?w and out = ?out
       and w' = "?w\<lparr>events := [Opened ''stopwords.json''] @ notices ?tf @ notices ?tf\<rparr>"]
    run
  have "map entry_style ?out = map style_name (filter (\<lambda>p. 3 \<le> length (str_split (para_text p))) ?ps)"
    by blast
  then have "map entry_style ?out = [''Heading 1'', ''List Bullet'']"
    unfolding flt by simp
  with run show ?thesis by (intro conjI)
qed

text \<open>
  C2, as amended. The text of an entry is the trimmed paragraph text after stop-word removal
  (if on), then lemmatization alone, stemming alone, or neither, as the two switches say,
  then punctuation removal (if on): unless both switches are on, at most one of the two
  transforms is applied. With both on, both are applied, lemmatization first and stemming
  to its result. Each applied transform prints its notice, in this order.
\<close>

theorem lemmatization_and_stemming_runs:
  "transform_paragraph tm tf sw p w =
     (if length (str_split (para_text p)) < 3 then (None, w)
      else
        (let base = (if remove_stop_words tf
                     then tm_remove_stop_words tm (strip (para_text p)) sw
                     else strip (para_text p));
             normal = (if apply_lemmatization tf \<and> apply_stemming tf
                         then tm_apply_stemming tm (tm_apply_lemmatization tm base)
                       else if apply_lemmatization tf then tm_apply_lemmatization tm base
                       else if apply_stemming tf then tm_apply_stemming tm base
                       else base)
         in (Some \<lparr>entry_text = (if remove_punctuation tf
                                   then tm_remove_punctuation tm normal else normal),
                    entry_style = style_name p\<rparr>,
             w\<lparr>events := events w
                  @ (if remove_stop_words tf then [Printed ''removing stop words''] else [])
                  @ (if apply_lemmatization tf then [Printed ''applying lemmatization''] else [])
                  @ (if apply_stemming tf then [Printed ''applying stemming''] else [])
                  @ (if remove_punctuation tf then [Printed ''removing punctuation''] else [])\<rparr>)))"
  by (simp add: transform_paragraph_run degenerate_def entry_of_def transformed_text_def
        notices_def Let_def)

theorem lemmatization_and_stemming_runs_witness:
  "transform_paragraph tagging_modifier
     \<lparr>remove_stop_words = False, apply_lemmatization = False, apply_stemming = True,
      remove_punctuation = True\<rparr> []
     \<lparr>para_text = ''a b c'', style_name = ''Normal''\<rparr> (world0 [] Map.empty)
   = (Some \<lparr>entry_text = ''punct(stem(a b c))'', entry_style = ''Normal''\<rparr>,
      (world0 [] Map.empty)
        \<lparr>events := [Printed ''applying stemming'', Printed ''removing punctuation'']\<rparr>)
   \<and> transform_paragraph tagging_modifier
     \<lparr>remove_stop_words = False, apply_lemmatization = True, apply_stemming = False,
      remove_punctuation = False\<rparr> []
     \<lparr>para_text = ''a b c'', style_name = ''Normal''\<rparr> (world0 [] Map.empty)
   = (Some \<lparr>entry_text = ''lemma(a b c)'', entry_style = ''Normal''\<rparr>,
      (world0 [] Map.empty)\<lparr>events := [Printed ''applying lemmatization'']\<rparr>)"
  using lemmatization_and_stemming_runs
    [of tagging_modifier
        "\<lparr>remove_stop_words = False, apply_lemmatization = False, apply_stemming = True,
          remove_punctuation = True\<rparr>" "[]"
        "\<lparr>para_text = ''a b c'', style_name = ''Normal''\<rparr>" "world0 [] Map.empty"]
    lemmatization_and_stemming_runs
    [of tagging_modifier
        "\<lparr>remove_stop_words = False, apply_lemmatization = True, apply_stemming = False,
          remove_punctuation = False\<rparr>" "[]"
        "\<lparr>para_text = ''a b c'', style_name = ''Normal''\<rparr>" "world0 [] Map.empty"]
  by (simp add: str_split_def isspace_def strip_def lstrip_def rstrip_def tagging_modifier_def
        tag_def world0_def)

text \<open>
  C2 as stated fails for a flag value with both switches on: the stage has no test that
  would suppress lemmatization.
\<close>

theorem both_transforms_run_counterexample:
  "transform_paragraph tagging_modifier
     \<lparr>remove_stop_words = False, apply_lemmatization = True, apply_stemming = True,
      remove_punctuation = False\<rparr> []
     \<lparr>para_text = ''a b c'', style_name = ''Normal''\<rparr> (world0 [] Map.empty)
   = (Some \<lparr>entry_text = ''stem(lemma(a b c))'', entry_style = ''Normal''\<rparr>,
      (world0 [] Map.empty)
        \<lparr>events := [Printed ''applying lemmatization'', Printed ''applying stemming'']\<rparr>)"
  by (simp add: transform_paragraph_def str_split_def isspace_def strip_def
        lstrip_def rstrip_def tagging_modifier_def tag_def print_def world0_def)

section \<open>The orchestrator\<close>

text \<open>
  C4. If a source fails extraction, the run ends with an error and the machine is as it was:
  nothing is transformed and nothing is written. A run that ends with an error has written
  nothing. A run that succeeds had no failing source and ends with its only write: the
  batch with the flags and one document per source, in order.
\<close>

theorem extraction_failure_aborts_batch:
  "((name, Inl e) \<in> set data_dir \<longrightarrow>
      (\<exists>e'. execute_etl pm tm data_dir dest flags w = (Inl e', w)))
   \<and> (execute_etl pm tm data_dir dest flags w = (Inl e, w') \<longrightarrow>
        writes (events w') = writes (events w))
   \<and> (execute_etl pm tm data_dir dest flags w = (Inr u, w') \<longrightarrow>
        (\<forall>(n, r) \<in> set data_dir. \<not> isl r)
        \<and> (\<exists>evs batch. events w' = events w @ evs @ [Wrote dest batch] \<and> writes evs = []
              \<and> config batch = flags
              \<and> map filename (documents batch) = map fst data_dir))"
proof (intro conjI impI)
  assume "(name, Inl e) \<in> set data_dir"
  from extract_data_fails [OF this] obtain e' where "extract_data data_dir = Inl e'" ..
  then have "execute_etl pm tm data_dir dest flags w = (Inl e', w)"
    by (simp add: execute_etl_run)
  then show "\<exists>e'. execute_etl pm tm data_dir dest flags w = (Inl e', w)" ..
next
  assume "execute_etl pm tm data_dir dest flags w = (Inl e, w')"
  then show "writes (events w') = writes (events w)" by (rule execute_etl_failure)
next
  assume run: "execute_etl pm tm data_dir dest flags w = (Inr u, w')"
  from execute_etl_success [OF run] obtain ds docs evs where
    s: "extract_data data_dir = Inr ds \<and> writes evs = [] \<and> map filename docs = map snd ds
        \<and> events w' = events w @ evs @ [Wrote dest \<lparr>config = flags, documents = docs\<rparr>]"
    by blast
  then have ex: "extract_data data_dir = Inr ds" ..
  from extract_data_names [OF ex]
  have names: "map snd ds = map fst data_dir" and ok: "\<forall>(n, r) \<in> set data_dir. \<not> isl r"
    by simp_all
  show "\<forall>(n, r) \<in> set data_dir. \<not> isl r" by (rule ok)
  let ?batch = "\<lparr>config = flags, documents = docs\<rparr>"
  from s names
  have "events w' = events w @ evs @ [Wrote dest ?batch] \<and> writes evs = []
          \<and> config ?batch = flags \<and> map filename (documents ?batch) = map fst data_dir"
    by simp
  then show "\<exists>evs batch. events w' = events w @ evs @ [Wrote dest batch] \<and> writes evs = []
              \<and> config batch = flags
              \<and> map filename (documents batch) = map fst data_dir"
    by (intro exI)
qed

theorem extraction_failure_aborts_batch_witness:
  "execute_etl first_is_title tagging_modifier
     [(''one.docx'', Inr [\<lparr>para_text = ''a b c'', style_name = ''Normal''\<rparr>]),
      (''two.docx'', Inl (ExtractionError ''two.docx'')),
      (''three.docx'', Inr [\<lparr>para_text = ''d e f'', style_name = ''Normal''\<rparr>])]
     ''out.json''
     \<lparr>paragraph_flags = \<lparr>remove_title_page = False, remove_bibliography = False,
                          remove_headings = False, remove_tables_and_figures = False\<rparr>,
      text_flags = \<lparr>remove_stop_words = False, apply_lemmatization = False,
                     apply_stemming = True, remove_punctuation = False\<rparr>\<rparr>
     (world0 [] Map.empty)
   = (Inl (ExtractionError ''two.docx''), world0 [] Map.empty)
   \<and> writes (events (world0 [] Map.empty :: etl_world)) = []
   \<and> execute_etl first_is_title tagging_modifier
     [(''one.docx'', Inr [\<lparr>para_text = ''a b c'', style_name = ''Normal''\<rparr>]),
      (''three.docx'', Inr [\<lparr>para_text = ''d e f'', style_name = ''Normal''\<rparr>])]
     ''out.json''
     \<lparr>paragraph_flags = \<lparr>remove_title_page = False, remove_bibliography = False,
                          remove_headings = False, remove_tables_and_figures = False\<rparr>,
      text_flags = \<lparr>remove_stop_words = False, apply_lemmatization = False,
                     apply_stemming = True, remove_punctuation = False\<rparr>\<rparr>
     (world0 [] Map.empty)
   = (Inr (),
      (world0 [] Map.empty)
        \<lparr>events :=
           [Printed ''applying stemming'', Printed ''applying stemming'',
            Wrote ''out.json''
              \<lparr>config =
                 \<lparr>paragraph_flags = \<lparr>remove_title_page = False, remove_bibliography = False,
                          remove_headings = False, remove_tables_and_figures = False\<rparr>,
                  text_flags = \<lparr>remove_stop_words = False, apply_lemmatization = False,
                     apply_stemming = True, remove_punctuation = False\<rparr>\<rparr>,
               documents =
                 [\<lparr>filename = ''one.docx'',
                   corpora = [\<lparr>entry_text = ''stem(a b c)'', entry_style = ''Normal''\<rparr>]\<rparr>,
                  \<lparr>filename = ''three.docx'',
                   corpora = [\<lparr>entry_text = ''stem(d e f)'', entry_style = ''Normal''\<rparr>]\<rparr>]\<rparr>]\<rparr>)"
proof -
  let ?flags = "\<lparr>paragraph_flags = \<lparr>remove_title_page = False, remove_bibliography = False,
                          remove_headings = False, remove_tables_and_figures = False\<rparr>,
      text_flags = \<lparr>remove_stop_words = False, apply_lemmatization = False,
                     apply_stemming = True, remove_punctuation = False\<rparr>\<rparr>"
  let ?bad = "[(''one.docx'', Inr [\<lparr>para_text = ''a b c'', style_name = ''Normal''\<rparr>]),
      (''two.docx'', Inl (ExtractionError ''two.docx'')),
      (''three.docx'', Inr [\<lparr>para_text = ''d e f'', style_name = ''Normal''\<rparr>])]"
  let ?w = "world0 [] Map.empty :: etl_world"
  have mem: "(''two.docx'', Inl (ExtractionError ''two.docx'')) \<in> set ?bad" by simp
  from extraction_failure_aborts_batch
    [where name = "''two.docx''" and e = "ExtractionError ''two.docx''" and data_dir = ?bad
       and pm = first_is_title and tm = tagging_modifier and dest = "''out.json''"
       and flags = ?flags and w = ?w and w' = ?w and u = "()"] mem
  obtain e' where ab: "execute_etl first_is_title tagging_modifier ?bad ''out.json'' ?flags ?w
      = (Inl e', ?w)"
    by blast
  have "fst (execute_etl first_is_title tagging_modifier ?bad ''out.json'' ?flags ?w)
      = Inl (ExtractionError ''two.docx'')"
    by (simp add: execute_etl_def)
  with ab have 1: "execute_etl first_is_title tagging_modifier ?bad ''out.json'' ?flags ?w
      = (Inl (ExtractionError ''two.docx''), ?w)"
    by simp
  have 2: "writes (events ?w) = []" by (simp add: world0_def)
  have 3: "execute_etl first_is_title tagging_modifier
     [(''one.docx'', Inr [\<lparr>para_text = ''a b c'', style_name = ''Normal''\<rparr>]),
      (''three.docx'', Inr [\<lparr>para_text = ''d e f'', style_name = ''Normal''\<rparr>])]
     ''out.json'' ?flags ?w
   = (Inr (),
      ?w\<lparr>events :=
           [Printed ''applying stemming'', Printed ''applying stemming'',
            Wrote ''out.json''
              \<lparr>config = ?flags,
               documents =
                 [\<lparr>filename = ''one.docx'',
                   corpora = [\<lparr>entry_text = ''stem(a b c)'', entry_style = ''Normal''\<rparr>]\<rparr>,
                  \<lparr>filename = ''three.docx'',
                   corpora = [\<lparr>entry_text = ''stem(d e f)'', entry_style = ''Normal''\<rparr>]\<rparr>]\<rparr>]\<rparr>)"
    by (simp add: execute_etl_run remove_paragraphs_from_doc_run rule_kept_def rule_removed_def
          filter_notices_def transform_paragraphs_from_doc_run kept_def degenerate_def
          str_split_def isspace_def entry_of_def transformed_text_def strip_def lstrip_def
          rstrip_def notices_def tagging_modifier_def tag_def world0_def)
  from 1 2 3 show ?thesis by (intro conjI)
qed

text \<open>
  C5, as amended. Each call of the text transform stage, one per document, opens the
  stop-word file exactly once when \<open>remove_stop_words\<close> is on, whatever the number of
  paragraphs, and never otherwise. When the file cannot be loaded the call fails before it
  looks at a paragraph, and a run with at least one document ends there: after the filter
  stage of the first document, with no text transform run and nothing written.
\<close>

theorem stopwords_loaded_once_per_stage_call:
  "count_list (events (snd (transform_paragraphs_from_doc tm ps tf w))) (Opened ''stopwords.json'')
     = count_list (events w) (Opened ''stopwords.json'') + (if remove_stop_words tf then 1 else 0)
   \<and> (remove_stop_words tf \<and> files w ''stopwords.json'' = None \<longrightarrow>
        transform_paragraphs_from_doc tm ps tf w =
          (Inl (FileNotFoundError ''stopwords.json''),
           w\<lparr>events := events w @ [Opened ''stopwords.json'']\<rparr>))
   \<and> (remove_stop_words (text_flags flags) \<and> files w ''stopwords.json'' = None \<longrightarrow>
        transform pm tm ((doc, name) # rest) flags w =
          (Inl (FileNotFoundError ''stopwords.json''),
           w\<lparr>events := events w @ filter_notices (paragraph_flags flags)
                        @ [Opened ''stopwords.json'']\<rparr>))
   \<and> (remove_stop_words (text_flags flags) \<and> files w ''stopwords.json'' = None
        \<and> extract_data data_dir = Inr ((doc, name) # rest) \<longrightarrow>
        execute_etl pm tm data_dir dest flags w =
          (Inl (FileNotFoundError ''stopwords.json''),
           w\<lparr>events := events w @ filter_notices (paragraph_flags flags)
                        @ [Opened ''stopwords.json'']\<rparr>))"
proof (intro conjI impI)
  show "count_list (events (snd (transform_paragraphs_from_doc tm ps tf w)))
          (Opened ''stopwords.json'')
        = count_list (events w) (Opened ''stopwords.json'')
          + (if remove_stop_words tf then 1 else 0)"
    by (simp add: transform_paragraphs_from_doc_run count_opened_concat_notices
          split: option.splits)
next
  assume "remove_stop_words tf \<and> files w ''stopwords.json'' = None"
  then show "transform_paragraphs_from_doc tm ps tf w =
          (Inl (FileNotFoundError ''stopwords.json''),
           w\<lparr>events := events w @ [Opened ''stopwords.json'']\<rparr>)"
    by (simp add: transform_paragraphs_from_doc_run)
next
  assume "remove_stop_words (text_flags flags) \<and> files w ''stopwords.json'' = None"
  then show "transform pm tm ((doc, name) # rest) flags w =
          (Inl (FileNotFoundError ''stopwords.json''),
           w\<lparr>events := events w @ filter_notices (paragraph_flags flags)
                        @ [Opened ''stopwords.json'']\<rparr>)"
    by (simp add: transform_first_document_without_stopwords)
next
  assume a: "remove_stop_words (text_flags flags) \<and> files w ''stopwords.json'' = None
        \<and> extract_data data_dir = Inr ((doc, name) # rest)"
  then have "transform pm tm ((doc, name) # rest) flags w =
          (Inl (FileNotFoundError ''stopwords.json''),
           w\<lparr>events := events w @ filter_notices (paragraph_flags flags)
                        @ [Opened ''stopwords.json'']\<rparr>)"
    by (simp add: transform_first_document_without_stopwords)
  with a show "execute_etl pm tm data_dir dest flags w =
          (Inl (FileNotFoundError ''stopwords.json''),
           w\<lparr>events := events w @ filter_notices (paragraph_flags flags)
                        @ [Opened ''stopwords.json'']\<rparr>)"
    by (simp add: execute_etl_def)
qed

theorem stopwords_loaded_once_per_stage_call_witness:
  "count_list
     (events (snd (transform_paragraphs_from_doc tagging_modifier
        [\<lparr>para_text = ''a b c'', style_name = ''Normal''\<rparr>,
         \<lparr>para_text = ''d e f'', style_name = ''Normal''\<rparr>,
         \<lparr>para_text = ''g h i'', style_name = ''Normal''\<rparr>]
        \<lparr>remove_stop_words = True, apply_lemmatization = False, apply_stemming = False,
         remove_punctuation = False\<rparr>
        (world0 [] [''stopwords.json'' \<mapsto> [''de'', ''het'']]))))
     (Opened ''stopwords.json'') = 1
   \<and> execute_etl first_is_title tagging_modifier
        [(''one.docx'', Inr [\<lparr>para_text = ''a b c'', style_name = ''Normal''\<rparr>])] ''out.json''
        \<lparr>paragraph_flags = \<lparr>remove_title_page = False, remove_bibliography = False,
                             remove_headings = False, remove_tables_and_figures = False\<rparr>,
         text_flags = \<lparr>remove_stop_words = True, apply_lemmatization = False,
                        apply_stemming = False, remove_punctuation = False\<rparr>\<rparr>
        (world0 [] Map.empty)
      = (Inl (FileNotFoundError ''stopwords.json''),
         (world0 [] Map.empty)\<lparr>events := [Opened ''stopwords.json'']\<rparr>)"
proof -
  let ?tf = "\<lparr>remove_stop_words = True, apply_lemmatization = False, apply_stemming = False,
         remove_punctuation = False\<rparr>"
  let ?flags = "\<lparr>paragraph_flags = \<lparr>remove_title_page = False, remove_bibliography = False,
                             remove_headings = False, remove_tables_and_figures = False\<rparr>,
         text_flags = ?tf\<rparr>"
  let ?ps = "[\<lparr>para_text = ''a b c'', style_name = ''Normal''\<rparr>,
         \<lparr>para_text = ''d e f'', style_name = ''Normal''\<rparr>,
         \<lparr>para_text = ''g h i'', style_name = ''Normal''\<rparr>]"
  let ?w = "world0 [] [''stopwords.json'' \<mapsto> [''de'', ''het'']] :: etl_world"
  let ?v = "world0 [] Map.empty :: etl_world"
  let ?data = "[(''one.docx'', Inr [\<lparr>para_text = ''a b c'', style_name = ''Normal''\<rparr>])]"
  from stopwords_loaded_once_per_stage_call
    [where tm = tagging_modifier and ps = ?ps and tf = ?tf and w = ?w and flags = ?flags
       and pm = first_is_title and doc = "[]" and name = "[]" and rest = "[]"
       and data_dir = "[]" and dest = "[]"]
  have 1: "count_list (events (snd (transform_paragraphs_from_doc tagging_modifier ?ps ?tf ?w)))
     (Opened ''stopwords.json'') = 1"
    by (simp add: world0_def)
  have ex: "extract_data ?data
      = Inr [([\<lparr>para_text = ''a b c'', style_name = ''Normal''\<rparr>], ''one.docx'')]"
    by simp
  have hyp: "remove_stop_words (text_flags ?flags) \<and> files ?v ''stopwords.json'' = None"
    by (simp add: world0_def)
  from stopwords_loaded_once_per_stage_call
    [where tm = tagging_modifier and ps = "[]" and tf = ?tf and w = ?v and flags = ?flags
       and pm = first_is_title
       and doc = "[\<lparr>para_text = ''a b c'', style_name = ''Normal''\<rparr>]"
       and name = "''one.docx''" and rest = "[]" and data_dir = ?data and dest = "''out.json''"]
    ex hyp
  have "execute_etl first_is_title tagging_modifier ?data ''out.json'' ?flags ?v
      = (Inl (FileNotFoundError ''stopwords.json''),
         ?v\<lparr>events := events ?v @ filter_notices (paragraph_flags ?flags)
                      @ [Opened ''stopwords.json'']\<rparr>)"
    by blast
  then have 2: "execute_etl first_is_title tagging_modifier ?data ''out.json'' ?flags ?v
      = (Inl (FileNotFoundError ''stopwords.json''),
         ?v\<lparr>events := [Opened ''stopwords.json'']\<rparr>)"
    by (simp add: filter_notices_def world0_def)
  from 1 2 show ?thesis by (intro conjI)
qed

text \<open>
  C5 as stated fails in three ways: the first document has been through the filter stage
  when the run aborts; a batch without documents never opens the file, so the run succeeds
  and writes its output although the file is missing; and a batch of two documents opens
  the file twice.
\<close>

theorem stopwords_abort_counterexample:
  "execute_etl first_is_title tagging_modifier
     [(''one.docx'', Inr [\<lparr>para_text = ''A study'', style_name = ''Title''\<rparr>,
                        \<lparr>para_text = ''a b c'', style_name = ''Normal''\<rparr>])] ''out.json''
     \<lparr>paragraph_flags = \<lparr>remove_title_page = True, remove_bibliography = False,
                          remove_headings = False, remove_tables_and_figures = False\<rparr>,
      text_flags = \<lparr>remove_stop_words = True, apply_lemmatization = False,
                     apply_stemming = False, remove_punctuation = False\<rparr>\<rparr>
     (world0 [] Map.empty)
   = (Inl (FileNotFoundError ''stopwords.json''),
      (world0 [] Map.empty)
        \<lparr>events := [Printed ''removing titlepage'', Opened ''stopwords.json'']\<rparr>)
   \<and> execute_etl first_is_title tagging_modifier [] ''out.json''
     \<lparr>paragraph_flags = \<lparr>remove_title_page = True, remove_bibliography = False,
                          remove_headings = False, remove_tables_and_figures = False\<rparr>,
      text_flags = \<lparr>remove_stop_words = True, apply_lemmatization = False,
                     apply_stemming = False, remove_punctuation = False\<rparr>\<rparr>
     (world0 [] Map.empty)
   = (Inr (),
      (world0 [] Map.empty)
        \<lparr>events :=
           [Wrote ''out.json''
              \<lparr>config =
                 \<lparr>paragraph_flags = \<lparr>remove_title_page = True, remove_bibliography = False,
                          remove_headings = False, remove_tables_and_figures = False\<rparr>,
                  text_flags = \<lparr>remove_stop_words = True, apply_lemmatization = False,
                     apply_stemming = False, remove_punctuation = False\<rparr>\<rparr>,
               documents = []\<rparr>]\<rparr>)
   \<and> count_list
       (events (snd (execute_etl first_is_title tagging_modifier
          [(''one.docx'', Inr [\<lparr>para_text = ''a b c'', style_name = ''Normal''\<rparr>]),
           (''two.docx'', Inr [\<lparr>para_text = ''d e f'', style_name = ''Normal''\<rparr>])] ''out.json''
          \<lparr>paragraph_flags = \<lparr>remove_title_page = False, remove_bibliography = False,
                          remove_headings = False, remove_tables_and_figures = False\<rparr>,
           text_flags = \<lparr>remove_stop_words = True, apply_lemmatization = False,
                     apply_stemming = False, remove_punctuation = False\<rparr>\<rparr>
          (world0 [] [''stopwords.json'' \<mapsto> [''de'', ''het'']]))))
       (Opened ''stopwords.json'') = 2"
proof (intro conjI)
  show "count_list
       (events (snd (execute_etl first_is_title tagging_modifier
          [(''one.docx'', Inr [\<lparr>para_text = ''a b c'', style_name = ''Normal''\<rparr>]),
           (''two.docx'', Inr [\<lparr>para_text = ''d e f'', style_name = ''Normal''\<rparr>])] ''out.json''
          \<lparr>paragraph_flags = \<lparr>remove_title_page = False, remove_bibliography = False,
                          remove_headings = False, remove_tables_and_figures = False\<rparr>,
           text_flags = \<lparr>remove_stop_words = True, apply_lemmatization = False,
                     apply_stemming = False, remove_punctuation = False\<rparr>\<rparr>
          (world0 [] [''stopwords.json'' \<mapsto> [''de'', ''het'']]))))
       (Opened ''stopwords.json'') = 2"
    by (simp add: execute_etl_run remove_paragraphs_from_doc_run rule_kept_def rule_removed_def
          filter_notices_def transform_paragraphs_from_doc_run kept_def degenerate_def
          str_split_def isspace_def notices_def world0_def)
qed (simp_all add: execute_etl_run remove_paragraphs_from_doc_run rule_kept_def rule_removed_def
          filter_notices_def transform_paragraphs_from_doc_run first_is_title_def world0_def)

end
